theory Spec2Isabelle
  imports Complex_Main "HOL-Library.Log_Nat" "HOL-Library.Sublist" "HOL-Library.Word"
begin

section \<open>JavaScript numbers\<close>

text \<open>
  A JavaScript Number is an IEEE-754 binary64 value. A finite value is kept as the
  rational it denotes; every arithmetic operation computes the exact rational result and
  rounds it to the nearest binary64 value, ties to even, as the language requires for
  \<open>+\<close>, \<open>-\<close>, \<open>*\<close> and \<open>/\<close>. \<open>Math.sqrt\<close> is taken to be correctly rounded
  (the hardware instruction every engine uses). The sign of zero is not kept: the code
  modelled here never tells \<open>-0\<close> from \<open>+0\<close> (it compares with \<open>===\<close>, \<open><\<close>
  and \<open>>\<close> only, and never divides by a zero).
\<close>

datatype jsnum = NaN | Inf bool | Fin rat

text \<open>\<open>Inf True\<close> is \<open>-Infinity\<close>, \<open>Inf False\<close> is \<open>+Infinity\<close>.\<close>

definition pow2 :: "int \<Rightarrow> rat" where
  "pow2 e = (if 0 \<le> e then 2 ^ nat e else 1 / 2 ^ nat (- e))"

text \<open>\<open>ilog2 q\<close> is the integer part of the binary logarithm of a positive rational.\<close>

definition ilog2 :: "rat \<Rightarrow> int" where
  "ilog2 q = (case quotient_of q of (a, b) \<Rightarrow>
     (let d = bitlen a - bitlen b in if pow2 d \<le> q then d else d - 1))"

definition round_half_even :: "rat \<Rightarrow> int" where
  "round_half_even x = (let f = \<lfloor>x\<rfloor>; r = x - of_int f in
     if r < 1 / 2 then f else if 1 / 2 < r then f + 1 else if even f then f else f + 1)"

text \<open>
  Rounding to binary64: 53 significant bits, exponents from \<open>-1022\<close> (below it the
  spacing stays \<open>2 ^ -1074\<close>: subnormal numbers) to \<open>1023\<close> (above it: infinity).
\<close>

definition round_double :: "rat \<Rightarrow> jsnum" where
  "round_double q = (if q = 0 then Fin 0 else
     (let e = max (ilog2 \<bar>q\<bar>) (- 1022);
          ulp = pow2 (e - 52);
          v = of_int (round_half_even (\<bar>q\<bar> / ulp)) * ulp
      in if pow2 1024 \<le> v then Inf (q < 0) else Fin (sgn q * v)))"

fun fneg :: "jsnum \<Rightarrow> jsnum" where
  "fneg NaN = NaN"
| "fneg (Inf s) = Inf (\<not> s)"
| "fneg (Fin x) = Fin (- x)"

fun fadd :: "jsnum \<Rightarrow> jsnum \<Rightarrow> jsnum" where
  "fadd (Fin x) (Fin y) = round_double (x + y)"
| "fadd (Inf s) (Inf t) = (if s = t then Inf s else NaN)"
| "fadd (Inf s) (Fin y) = Inf s"
| "fadd (Fin x) (Inf t) = Inf t"
| "fadd _ _ = NaN"

definition fsub :: "jsnum \<Rightarrow> jsnum \<Rightarrow> jsnum" where
  "fsub x y = fadd x (fneg y)"

fun fmul :: "jsnum \<Rightarrow> jsnum \<Rightarrow> jsnum" where
  "fmul (Fin x) (Fin y) = round_double (x * y)"
| "fmul (Inf s) (Inf t) = Inf (s \<noteq> t)"
| "fmul (Inf s) (Fin y) = (if y = 0 then NaN else Inf (s \<noteq> (y < 0)))"
| "fmul (Fin x) (Inf t) = (if x = 0 then NaN else Inf ((x < 0) \<noteq> t))"
| "fmul _ _ = NaN"

fun fdiv :: "jsnum \<Rightarrow> jsnum \<Rightarrow> jsnum" where
  "fdiv (Fin x) (Fin y) =
     (if y = 0 then (if x = 0 then NaN else Inf (x < 0)) else round_double (x / y))"
| "fdiv (Inf s) (Fin y) = Inf (s \<noteq> (y < 0))"
| "fdiv (Fin x) (Inf t) = Fin 0"
| "fdiv _ _ = NaN"

text \<open>The integer square root, by bisection between \<open>lo\<close> and \<open>hi\<close>.\<close>

function isqrt_aux :: "nat \<Rightarrow> nat \<Rightarrow> nat \<Rightarrow> nat" where
  "isqrt_aux n lo hi =
     (if hi \<le> lo + 1 then lo
      else (let mid = (lo + hi) div 2 in
        if mid * mid \<le> n then isqrt_aux n mid hi else isqrt_aux n lo mid))"
  by pat_completeness auto
termination
  by (relation "measure (\<lambda>(n, lo, hi). hi - lo)") auto

declare isqrt_aux.simps [simp del]

definition isqrt :: "nat \<Rightarrow> nat" where
  "isqrt n = isqrt_aux n 0 (n + 1)"

text \<open>
  \<open>Math.sqrt\<close>: the square root of \<open>q\<close> in units of \<open>ulp\<close> is the square root of
  \<open>r = q / ulp\<^sup>2\<close>; its integer part is \<open>k\<close>, and comparing \<open>r\<close> with
  \<open>(k + 1/2)\<^sup>2\<close> rounds it to the nearest integer.
\<close>

fun fsqrt :: "jsnum \<Rightarrow> jsnum" where
  "fsqrt NaN = NaN"
| "fsqrt (Inf s) = (if s then NaN else Inf False)"
| "fsqrt (Fin q) =
     (if q < 0 then NaN else if q = 0 then Fin 0 else
       (let e = max (ilog2 q div 2) (- 1022);
            ulp = pow2 (e - 52);
            r = q / (ulp * ulp);
            k = int (isqrt (nat \<lfloor>r\<rfloor>));
            h = (of_int k + 1 / 2) * (of_int k + 1 / 2);
            n = (if r < h then k else if h < r then k + 1 else if even k then k else k + 1)
        in Fin (of_int n * ulp)))"

declare fsqrt.simps(3) [simp del]

text \<open>The test \<open>x > 0\<close> (false for \<open>NaN\<close>) and the order of the values that are numbers.\<close>

fun js_pos :: "jsnum \<Rightarrow> bool" where
  "js_pos NaN = False"
| "js_pos (Inf s) = (\<not> s)"
| "js_pos (Fin x) = (0 < x)"

fun js_less :: "jsnum \<Rightarrow> jsnum \<Rightarrow> bool" where
  "js_less (Fin x) (Fin y) = (x < y)"
| "js_less (Inf s) (Inf t) = (s \<and> \<not> t)"
| "js_less (Inf s) (Fin y) = s"
| "js_less (Fin x) (Inf t) = (\<not> t)"
| "js_less _ _ = False"

section \<open>Strings, tokens and tokenization\<close>

text \<open>
  A JavaScript string is a sequence of UTF-16 code units. \<open>trim\<close> removes the white
  space and line terminators of the language from both ends.
\<close>

type_synonym jsstring = "nat list"

definition js_space :: "nat \<Rightarrow> bool" where
  "js_space c = (c \<in> set [0x9, 0xA, 0xB, 0xC, 0xD, 0x20, 0xA0, 0x1680, 0x2028, 0x2029,
       0x202F, 0x205F, 0x3000, 0xFEFF] \<or> (0x2000 \<le> c \<and> c \<le> 0x200A))"

definition trim :: "jsstring \<Rightarrow> jsstring" where
  "trim s = rev (dropWhile js_space (rev (dropWhile js_space s)))"

text \<open>
  A token of the morphological analyzer. A field that is \<open>undefined\<close> is \<open>None\<close>.
  The three part-of-speech tags the filter keeps are the words for noun, verb and
  adjective, written here by their code units.
\<close>

record token =
  pos :: jsstring
  basic_form :: "jsstring option"
  surface_form :: "jsstring option"

definition POS_NOUN :: jsstring where "POS_NOUN = [0x540D, 0x8A5E]"
definition POS_VERB :: jsstring where "POS_VERB = [0x52D5, 0x8A5E]"
definition POS_ADJECTIVE :: jsstring where "POS_ADJECTIVE = [0x5F62, 0x5BB9, 0x8A5E]"

definition isTargetPOS :: "token \<Rightarrow> bool" where
  "isTargetPOS t = (pos t = POS_NOUN \<or> pos t = POS_VERB \<or> pos t = POS_ADJECTIVE)"

text \<open>
  The word of a token: its base form when that is a non-empty string other than
  \<open>"*"\<close> (code unit 42), else its surface form.
\<close>

definition token_word :: "token \<Rightarrow> jsstring option" where
  "token_word t = (case basic_form t of
       None \<Rightarrow> surface_form t
     | Some b \<Rightarrow> if b \<noteq> [] \<and> b \<noteq> [0x2A] then Some b else surface_form t)"

text \<open>
  The loop of \<open>tokenize\<close> over the analyzer's tokens, with the array \<open>out\<close> it pushes
  to. The four copies of the function in the repository (\<open>tokenize\<close> and
  \<open>tokenizeText\<close>) differ only in how the part-of-speech test is spelled.
\<close>

fun tokenize_loop :: "bool \<Rightarrow> token list \<Rightarrow> jsstring list \<Rightarrow> jsstring list" where
  "tokenize_loop posFilter [] out = out"
| "tokenize_loop posFilter (t # ts) out =
     (if posFilter \<and> \<not> isTargetPOS t then tokenize_loop posFilter ts out
      else (case token_word t of
          None \<Rightarrow> tokenize_loop posFilter ts out
        | Some w \<Rightarrow>
            if w = [] \<or> trim w = [] then tokenize_loop posFilter ts out
            else tokenize_loop posFilter ts (out @ [w])))"

definition tokenize :: "bool \<Rightarrow> token list \<Rightarrow> jsstring list" where
  "tokenize posFilter tokens = tokenize_loop posFilter tokens []"

text \<open>
  \<open>[...new Set(words)]\<close>: the constructor adds the elements one by one, a Set keeps
  its elements in insertion order, and adding an element it already holds changes nothing.
\<close>

definition set_add :: "'a list \<Rightarrow> 'a \<Rightarrow> 'a list" where
  "set_add s x = (if x \<in> set s then s else s @ [x])"

definition new_Set :: "'a list \<Rightarrow> 'a list" where
  "new_Set xs = fold (\<lambda>x s. set_add s x) xs []"

text \<open>Lines 173-174 and 872-873: the words a run goes on with.\<close>

definition run_words :: "bool \<Rightarrow> bool \<Rightarrow> token list \<Rightarrow> jsstring list" where
  "run_words posFilter uniqueOnly tokens =
     (let words = tokenize posFilter tokens in
      if uniqueOnly then new_Set words else words)"

text \<open>\<open>String.prototype.split\<close> with a one-unit separator, and with \<open>/\r?\n/\<close>.\<close>

fun split_on :: "nat \<Rightarrow> jsstring \<Rightarrow> jsstring list" where
  "split_on c [] = [[]]"
| "split_on c (x # xs) =
     (if x = c then [] # split_on c xs
      else (let r = split_on c xs in (x # hd r) # tl r))"

fun split_lines :: "jsstring \<Rightarrow> jsstring list" where
  "split_lines [] = [[]]"
| "split_lines [x] = (if x = 0xA then [[], []] else [[x]])"
| "split_lines (x # y # xs) =
     (if x = 0xD \<and> y = 0xA then [] # split_lines xs
      else if x = 0xA then [] # split_lines (y # xs)
      else (let r = split_lines (y # xs) in (x # hd r) # tl r))"

section \<open>Page state and effects\<close>

text \<open>
  \<open>app.js\<close> holds four variants of the page script, one after the other: the first
  (lines 1-223) loads everything when the page opens, the second (224-455) and the third
  (456-682) load each asset when it is first needed, the fourth (683-918) loads the
  tokenizer at once and the rest when needed. A definition that belongs to one variant
  carries its number as a suffix (\<open>_v1\<close> to \<open>_v4\<close>); the module-level variables of
  the four variants are the fields of one record.
\<close>

definition SIM_D :: nat where
  "SIM_D = 50"

datatype asset = COORDS_CSV | VOCAB_JSON | VEC_BIN | PLOTLY_URL | KUROMOJI_URL

datatype error =
    FetchFailed asset
  | ScriptLoadFailed asset
  | TokenizerBuildFailed
  | TokenizerBuildTimeout
  | RangeError
  | TypeError
  | SizeMismatch nat nat

text \<open>
  \<open>SizeMismatch got expected\<close> is the \<open>Error\<close> of lines 79, 358, 586 and 779, with the
  two numbers of its message. An asynchronous function returns, throws (its promise is
  rejected) or, when a callback it waits for never comes, stays pending.
\<close>

datatype outcome = Returned | Thrown error | Pending

text \<open>
  The status line shows one of a fixed set of messages; each constructor stands for the
  text the script passes to \<open>setStatus\<close> (the variants word some of them slightly
  differently). \<open>StDone n\<close> is the message that \<open>n\<close> words were plotted.
\<close>

datatype status_msg =
    StInitial
  | StLoadingVocab
  | StLoadingVec
  | StLoadingCoords
  | StLoadingSim
  | StLoadingLibs
  | StLoadingPlotLib
  | StPreparingTokenizer
  | StReady
  | StReadyCoords
  | StReadySim
  | StTokenizing
  | StTooFewWords
  | StDone nat
  | StError

datatype alert_msg = AlertEnterText | AlertError | AlertErrorMessage error

type_synonym point = "jsnum \<times> jsnum"

type_synonym tokenizer_fn = "jsstring \<Rightarrow> token list"

text \<open>
  The module-level variables (\<open>vecData = None\<close> is \<open>null\<close>), then what the page
  shows: the status line, the run button, the selected word, the list of similar words
  (an item is the word and its score; the text of the item also formats the score), the
  last plot drawn (the arrays \<open>renderPlot\<close> was called with, which its click handler
  keeps), the alerts raised and the errors logged. \<open>scripts\<close> are the script elements
  of the document, \<open>libs\<close> the scripts that did load (\<open>window.Plotly\<close> is defined when
  \<open>PLOTLY_URL\<close> is in it), \<open>fetched\<close> the log of the requests made by \<open>fetch\<close>.
\<close>

record state =
  tokenizer :: "tokenizer_fn option"
  coordsLoaded :: bool
  coordMap :: "jsstring \<rightharpoonup> point"
  simLoaded :: bool
  vocab :: "jsstring list"
  wordToIndex :: "jsstring \<rightharpoonup> nat"
  vecData :: "jsnum list option"
  currentWords :: "jsstring list"
  currentXY :: "point list"
  status :: status_msg
  runDisabled :: bool
  selectedWord :: "jsstring option"
  simList :: "(jsstring \<times> jsnum) list"
  plot :: "(jsstring list \<times> point list) option"
  alerts :: "alert_msg list"
  console :: "error list"
  scripts :: "asset list"
  libs :: "asset set"
  fetched :: "asset list"

text \<open>
  What the network and the libraries answer while one handler runs: the body of each
  asset (\<open>None\<close>: the request or the reading of the body fails; for the vocabulary also:
  the body is not a JSON array of strings), whether a script loads, what the tokenizer
  builder calls back with, and \<open>Number\<close> on a string.
\<close>

datatype build_result = Built tokenizer_fn | BuildError | BuildSilent

record env =
  coords_csv :: "jsstring option"
  vocab_json :: "jsstring list option"
  vec_bin :: "8 word list option"
  script_loads :: "asset \<Rightarrow> bool"
  tokenizer_build :: build_result
  to_number :: "jsstring \<Rightarrow> jsnum"

definition setStatus :: "status_msg \<Rightarrow> state \<Rightarrow> state" where
  "setStatus msg st = st\<lparr>status := msg\<rparr>"

definition fetch :: "asset \<Rightarrow> state \<Rightarrow> state" where
  "fetch a st = st\<lparr>fetched := fetched st @ [a]\<rparr>"

text \<open>\<open>seq r f\<close> goes on with \<open>f\<close> when \<open>r\<close> returned, and stops where \<open>r\<close> stopped.\<close>

definition seq :: "outcome \<times> state \<Rightarrow> (state \<Rightarrow> outcome \<times> state) \<Rightarrow> outcome \<times> state" where
  "seq r f = (case r of (Returned, st) \<Rightarrow> f st | (Thrown e, st) \<Rightarrow> (Thrown e, st)
     | (Pending, st) \<Rightarrow> (Pending, st))"

text \<open>Reading an array at an index: \<open>undefined\<close> out of range.\<close>

definition nth_opt :: "'a list \<Rightarrow> nat \<Rightarrow> 'a option" where
  "nth_opt xs n = (if n < length xs then Some (xs ! n) else None)"

subsection \<open>The vector buffer\<close>

text \<open>
  \<open>new Float32Array(buf)\<close> throws a \<open>RangeError\<close> unless the byte length is a multiple
  of 4; then element \<open>n\<close> is the binary32 value of bytes \<open>4n\<close> to \<open>4n + 3\<close>, the least
  significant first. Reading an element gives that value as a Number.
\<close>

definition float32_value :: "nat \<Rightarrow> jsnum" where
  "float32_value bits =
     (let neg = (2 ^ 31 \<le> bits); ex = (bits div 2 ^ 23) mod 256; man = bits mod 2 ^ 23 in
      if ex = 255 then (if man = 0 then Inf neg else NaN)
      else (let m = (if ex = 0 then of_nat man * pow2 (- 149)
                     else of_nat (2 ^ 23 + man) * pow2 (int ex - 150))
            in Fin (if neg then - m else m)))"

fun float32_elements :: "8 word list \<Rightarrow> jsnum list" where
  "float32_elements (b0 # b1 # b2 # b3 # bs) =
     float32_value (unat b0 + 2 ^ 8 * unat b1 + 2 ^ 16 * unat b2 + 2 ^ 24 * unat b3)
       # float32_elements bs"
| "float32_elements _ = []"

definition new_Float32Array :: "8 word list \<Rightarrow> error + jsnum list" where
  "new_Float32Array buf =
     (if length buf mod 4 \<noteq> 0 then Inl RangeError else Inr (float32_elements buf))"

text \<open>\<open>new Map(vocab.map((w, i) => [w, i]))\<close>: a later entry replaces an earlier one.\<close>

definition index_map :: "jsstring list \<Rightarrow> (jsstring \<rightharpoonup> nat)" where
  "index_map v = fold (\<lambda>(w, i) m. m(w \<mapsto> i)) (zip v [0..<length v]) Map.empty"

subsection \<open>Cosine similarity (lines 39-52, 295-308, 525-538, 798-811)\<close>

text \<open>
  An element read out of the range of the typed array is \<open>undefined\<close>, which the
  arithmetic turns into \<open>NaN\<close>; indexing \<open>null\<close> throws a \<open>TypeError\<close>.
\<close>

definition vec_get :: "jsnum list \<Rightarrow> nat \<Rightarrow> jsnum" where
  "vec_get vd n = (if n < length vd then vd ! n else NaN)"

definition cos_step :: "jsnum list \<Rightarrow> nat \<Rightarrow> nat \<Rightarrow> nat \<Rightarrow> jsnum \<times> jsnum \<times> jsnum
    \<Rightarrow> jsnum \<times> jsnum \<times> jsnum" where
  "cos_step vd offI offJ k acc = (case acc of (dot, ni, nj) \<Rightarrow>
     (let a = vec_get vd (offI + k); b = vec_get vd (offJ + k)
      in (fadd dot (fmul a b), fadd ni (fmul a a), fadd nj (fmul b b))))"

definition cosineSimByIndex :: "state \<Rightarrow> nat \<Rightarrow> nat \<Rightarrow> error + jsnum" where
  "cosineSimByIndex st i j = (case vecData st of
       None \<Rightarrow> Inl TypeError
     | Some vd \<Rightarrow>
        (let offI = i * SIM_D; offJ = j * SIM_D in
         case fold (cos_step vd offI offJ) [0..<SIM_D] (Fin 0, Fin 0, Fin 0) of
           (dot, ni, nj) \<Rightarrow>
             if ni = Fin 0 \<or> nj = Fin 0 then Inr (Fin 0)
             else Inr (fdiv dot (fmul (fsqrt ni) (fsqrt nj)))))"

subsection \<open>The coordinate table (lines 89-102, 330-345, 566-577, 745-763)\<close>

fun isFinite :: "jsnum \<Rightarrow> bool" where
  "isFinite (Fin x) = True"
| "isFinite _ = False"

text \<open>
  One row \<open>word,x,y\<close> (44 is the comma): a field the row does not have is
  \<open>undefined\<close>, and \<open>Number(undefined)\<close> is \<open>NaN\<close>.
\<close>

definition coords_row :: "(jsstring \<Rightarrow> jsnum) \<Rightarrow> jsstring \<Rightarrow> (jsstring \<rightharpoonup> point)
    \<Rightarrow> (jsstring \<rightharpoonup> point)" where
  "coords_row num line m =
     (let parts = split_on 0x2C line in
      case nth_opt parts 0 of
        None \<Rightarrow> m
      | Some word \<Rightarrow>
          if word = [] then m
          else (let xx = (case nth_opt parts 1 of None \<Rightarrow> NaN | Some x \<Rightarrow> num x);
                    yy = (case nth_opt parts 2 of None \<Rightarrow> NaN | Some y \<Rightarrow> num y)
                in if isFinite xx \<and> isFinite yy then m(word \<mapsto> (xx, yy)) else m))"

definition parse_coords :: "(jsstring \<Rightarrow> jsnum) \<Rightarrow> jsstring \<Rightarrow> (jsstring \<rightharpoonup> point)
    \<Rightarrow> (jsstring \<rightharpoonup> point)" where
  "parse_coords num txt m =
     (let lines = filter (\<lambda>l. 0 < length (trim l)) (split_lines txt)
      in fold (coords_row num) (drop 1 lines) m)"

subsection \<open>Sorting\<close>

text \<open>
  \<open>Array.prototype.sort\<close> with a comparator is a stable sort: an element moves behind
  another one only when the comparator, called on the two in their order, is positive;
  a result that is \<open>NaN\<close> counts as zero. For a comparator that orders the elements
  consistently this fixes the result, which stable insertion computes. For any other
  comparator (here: when a score is \<open>NaN\<close>) the language leaves the order to the
  implementation; stable insertion is the order taken here.
\<close>

fun js_insert :: "('a \<Rightarrow> 'a \<Rightarrow> jsnum) \<Rightarrow> 'a \<Rightarrow> 'a list \<Rightarrow> 'a list" where
  "js_insert cmp x [] = [x]"
| "js_insert cmp x (y # ys) =
     (if js_pos (cmp x y) then y # js_insert cmp x ys else x # y # ys)"

definition js_sort :: "('a \<Rightarrow> 'a \<Rightarrow> jsnum) \<Rightarrow> 'a list \<Rightarrow> 'a list" where
  "js_sort cmp xs = foldr (js_insert cmp) xs []"

text \<open>The comparator \<open>(a, b) => b.s - a.s\<close> on the pairs of a word and its score.\<close>

definition by_score_desc :: "jsstring \<times> jsnum \<Rightarrow> jsstring \<times> jsnum \<Rightarrow> jsnum" where
  "by_score_desc a b = fsub (snd b) (snd a)"

subsection \<open>Loading the vocabulary and the vectors\<close>

text \<open>Variant 1, \<open>loadVocabAndVec\<close> (lines 67-81).\<close>

definition loadVocabAndVec_v1 :: "env \<Rightarrow> state \<Rightarrow> outcome \<times> state" where
  "loadVocabAndVec_v1 env st =
     (let st1 = fetch VOCAB_JSON (setStatus StLoadingVocab st) in
      case vocab_json env of
        None \<Rightarrow> (Thrown (FetchFailed VOCAB_JSON), st1)
      | Some v \<Rightarrow>
         (let st2 = fetch VEC_BIN (setStatus StLoadingVec
                      (st1\<lparr>vocab := v, wordToIndex := index_map v\<rparr>)) in
          case vec_bin env of
            None \<Rightarrow> (Thrown (FetchFailed VEC_BIN), st2)
          | Some buf \<Rightarrow>
             (case new_Float32Array buf of
                Inl e \<Rightarrow> (Thrown e, st2)
              | Inr fa \<Rightarrow>
                 (let st3 = st2\<lparr>vecData := Some fa\<rparr>;
                      expected = length (vocab st3) * SIM_D in
                  if length fa \<noteq> expected
                  then (Thrown (SizeMismatch (length fa) expected), st3)
                  else (Returned, st3)))))"

text \<open>Variant 2, \<open>ensureSimModel\<close> (lines 347-361): the vocabulary is a local constant.\<close>

definition ensureSimModel_v2 :: "env \<Rightarrow> state \<Rightarrow> outcome \<times> state" where
  "ensureSimModel_v2 env st =
     (if simLoaded st then (Returned, st)
      else
       (let st1 = fetch VOCAB_JSON (setStatus StLoadingSim st) in
        case vocab_json env of
          None \<Rightarrow> (Thrown (FetchFailed VOCAB_JSON), st1)
        | Some v \<Rightarrow>
           (let st2 = fetch VEC_BIN (st1\<lparr>wordToIndex := index_map v\<rparr>) in
            case vec_bin env of
              None \<Rightarrow> (Thrown (FetchFailed VEC_BIN), st2)
            | Some buf \<Rightarrow>
               (case new_Float32Array buf of
                  Inl e \<Rightarrow> (Thrown e, st2)
                | Inr fa \<Rightarrow>
                   (let st3 = st2\<lparr>vecData := Some fa\<rparr>;
                        expected = length v * SIM_D in
                    if length fa \<noteq> expected
                    then (Thrown (SizeMismatch (length fa) expected), st3)
                    else (Returned, st3\<lparr>simLoaded := True\<rparr>))))))"

text \<open>
  Variant 4, \<open>ensureSimModelLoaded\<close> (lines 765-784); its flag \<open>simModelLoaded\<close> is
  the field \<open>simLoaded\<close>.
\<close>

definition ensureSimModelLoaded_v4 :: "env \<Rightarrow> state \<Rightarrow> outcome \<times> state" where
  "ensureSimModelLoaded_v4 env st =
     (if simLoaded st then (Returned, st)
      else
       (let st1 = fetch VOCAB_JSON (setStatus StLoadingSim st) in
        case vocab_json env of
          None \<Rightarrow> (Thrown (FetchFailed VOCAB_JSON), st1)
        | Some v \<Rightarrow>
           (let st2 = fetch VEC_BIN (st1\<lparr>vocab := v, wordToIndex := index_map v\<rparr>) in
            case vec_bin env of
              None \<Rightarrow> (Thrown (FetchFailed VEC_BIN), st2)
            | Some buf \<Rightarrow>
               (case new_Float32Array buf of
                  Inl e \<Rightarrow> (Thrown e, st2)
                | Inr fa \<Rightarrow>
                   (let st3 = st2\<lparr>vecData := Some fa\<rparr>;
                        expected = length (vocab st3) * SIM_D in
                    if length fa \<noteq> expected
                    then (Thrown (SizeMismatch (length fa) expected), st3)
                    else (Returned, setStatus StReadySim (st3\<lparr>simLoaded := True\<rparr>)))))))"

subsection \<open>Loading the coordinates, the libraries and the tokenizer\<close>

text \<open>\<open>ensureCoords\<close> of variants 2 and 3 (lines 330-345 and 566-577).\<close>

definition ensureCoords :: "env \<Rightarrow> state \<Rightarrow> outcome \<times> state" where
  "ensureCoords env st =
     (if coordsLoaded st then (Returned, st)
      else
       (let st1 = fetch COORDS_CSV (setStatus StLoadingCoords st) in
        case coords_csv env of
          None \<Rightarrow> (Thrown (FetchFailed COORDS_CSV), st1)
        | Some txt \<Rightarrow>
            (Returned, st1\<lparr>coordMap := parse_coords (to_number env) txt (coordMap st1),
                            coordsLoaded := True\<rparr>)))"

text \<open>\<open>ensureCoordsLoaded\<close> of variant 4 (lines 745-763).\<close>

definition ensureCoordsLoaded_v4 :: "env \<Rightarrow> state \<Rightarrow> outcome \<times> state" where
  "ensureCoordsLoaded_v4 env st =
     (if coordsLoaded st then (Returned, st)
      else
       (let st1 = fetch COORDS_CSV (setStatus StLoadingCoords st) in
        case coords_csv env of
          None \<Rightarrow> (Thrown (FetchFailed COORDS_CSV), st1)
        | Some txt \<Rightarrow>
            (Returned, setStatus StReadyCoords
               (st1\<lparr>coordMap := parse_coords (to_number env) txt (coordMap st1),
                     coordsLoaded := True\<rparr>))))"

text \<open>
  \<open>loadScriptOnce\<close> (lines 261-273 and 495-505): nothing to do when the document
  already has a script element with this source; else the element is added, and the
  promise is settled by its \<open>load\<close> or \<open>error\<close> event.
\<close>

definition loadScriptOnce :: "asset \<Rightarrow> env \<Rightarrow> state \<Rightarrow> outcome \<times> state" where
  "loadScriptOnce src env st =
     (if src \<in> set (scripts st) then (Returned, st)
      else
       (let st1 = st\<lparr>scripts := scripts st @ [src]\<rparr> in
        if script_loads env src then (Returned, st1\<lparr>libs := insert src (libs st1)\<rparr>)
        else (Thrown (ScriptLoadFailed src), st1)))"

text \<open>
  \<open>ensureLibsAndTokenizer\<close> of variant 2 (lines 311-328). \<open>window.kuromoji.builder\<close>
  is a \<open>TypeError\<close> when the library did not load; nothing bounds the wait for the
  builder's callback.
\<close>

definition ensureLibsAndTokenizer_v2 :: "env \<Rightarrow> state \<Rightarrow> outcome \<times> state" where
  "ensureLibsAndTokenizer_v2 env st =
     (if tokenizer st \<noteq> None then (Returned, st)
      else
        seq (loadScriptOnce PLOTLY_URL env (setStatus StLoadingLibs st)) (\<lambda>st1.
        seq (loadScriptOnce KUROMOJI_URL env st1) (\<lambda>st2.
          (let st3 = setStatus StPreparingTokenizer st2 in
           if KUROMOJI_URL \<notin> libs st3 then (Thrown TypeError, st3)
           else (case tokenizer_build env of
               Built tk \<Rightarrow> (Returned, setStatus StReady (st3\<lparr>tokenizer := Some tk\<rparr>))
             | BuildError \<Rightarrow> (Thrown TokenizerBuildFailed, st3)
             | BuildSilent \<Rightarrow> (Pending, st3))))))"

text \<open>Variant 3: \<open>ensurePlotly\<close>, \<open>buildTokenizerWithTimeout\<close>, \<open>ensureTokenizer\<close>
  (lines 541-564). A builder that stays silent loses the race against the timer
  (\<open>loadScriptOnce\<close> itself never stays pending).\<close>

definition ensurePlotly_v3 :: "env \<Rightarrow> state \<Rightarrow> outcome \<times> state" where
  "ensurePlotly_v3 env st =
     (if PLOTLY_URL \<in> libs st then (Returned, st)
      else loadScriptOnce PLOTLY_URL env (setStatus StLoadingPlotLib st))"

definition buildTokenizerWithTimeout_v3 :: "env \<Rightarrow> state \<Rightarrow> (error + tokenizer_fn) \<times> state" where
  "buildTokenizerWithTimeout_v3 env st =
     (case loadScriptOnce KUROMOJI_URL env st of
        (Thrown e, st1) \<Rightarrow> (Inl e, st1)
      | (Pending, st1) \<Rightarrow> (Inl TokenizerBuildTimeout, st1)
      | (Returned, st1) \<Rightarrow>
          if KUROMOJI_URL \<notin> libs st1 then (Inl TypeError, st1)
          else (case tokenizer_build env of
              Built tk \<Rightarrow> (Inr tk, st1)
            | BuildError \<Rightarrow> (Inl TokenizerBuildFailed, st1)
            | BuildSilent \<Rightarrow> (Inl TokenizerBuildTimeout, st1)))"

definition ensureTokenizer_v3 :: "env \<Rightarrow> state \<Rightarrow> outcome \<times> state" where
  "ensureTokenizer_v3 env st =
     (if tokenizer st \<noteq> None then (Returned, st)
      else (case buildTokenizerWithTimeout_v3 env (setStatus StPreparingTokenizer st) of
          (Inl e, st1) \<Rightarrow> (Thrown e, st1)
        | (Inr tk, st1) \<Rightarrow> (Returned, st1\<lparr>tokenizer := Some tk\<rparr>)))"

subsection \<open>Drawing the plot\<close>

text \<open>
  \<open>renderPlot\<close> hands the words and the points to the charting library and registers
  the click handler. Variants 1 and 4 use the global \<open>Plotly\<close> the page has loaded;
  variants 2 and 3 use \<open>window.Plotly\<close>, a \<open>TypeError\<close> when the library is absent.
\<close>

definition renderPlot_v1 :: "jsstring list \<Rightarrow> point list \<Rightarrow> state \<Rightarrow> state" where
  "renderPlot_v1 words xy st = st\<lparr>plot := Some (words, xy)\<rparr>"

definition renderPlot_v2 :: "jsstring list \<Rightarrow> point list \<Rightarrow> state \<Rightarrow> outcome \<times> state" where
  "renderPlot_v2 words xy st =
     (if PLOTLY_URL \<in> libs st then (Returned, st\<lparr>plot := Some (words, xy)\<rparr>)
      else (Thrown TypeError, st))"

subsection \<open>The similar words\<close>

text \<open>
  Variant 1, \<open>showSimilar\<close> (lines 140-164). The argument is \<open>None\<close> when the caller
  passes \<open>undefined\<close>. \<open>score_all_v1\<close> is the \<open>map\<close> of lines 150-154, which gives
  \<open>null\<close> for a word without an index and stops at the first call that throws.
\<close>

fun score_all_v1 :: "state \<Rightarrow> nat \<Rightarrow> jsstring list \<Rightarrow> error + (jsstring \<times> jsnum) option list" where
  "score_all_v1 st idx [] = Inr []"
| "score_all_v1 st idx (w # ws) =
     (case wordToIndex st w of
        None \<Rightarrow> (case score_all_v1 st idx ws of Inl e \<Rightarrow> Inl e | Inr r \<Rightarrow> Inr (None # r))
      | Some j \<Rightarrow>
         (case cosineSimByIndex st idx j of
            Inl e \<Rightarrow> Inl e
          | Inr s \<Rightarrow>
             (case score_all_v1 st idx ws of
                Inl e \<Rightarrow> Inl e
              | Inr r \<Rightarrow> Inr (Some (w, s) # r))))"

definition showSimilar_v1 :: "jsstring option \<Rightarrow> state \<Rightarrow> outcome \<times> state" where
  "showSimilar_v1 word st =
     (let st1 = st\<lparr>selectedWord := word, simList := []\<rparr> in
      case (case word of None \<Rightarrow> None | Some wd \<Rightarrow> wordToIndex st1 wd) of
        None \<Rightarrow> (Returned, st1)
      | Some idx \<Rightarrow>
         (case score_all_v1 st1 idx (filter (\<lambda>w. Some w \<noteq> word) (currentWords st1)) of
            Inl e \<Rightarrow> (Thrown e, st1)
          | Inr scored \<Rightarrow>
             (let candidates =
                    take 10 (js_sort by_score_desc (List.map_filter (\<lambda>c. c) scored))
              in (Returned, fold (\<lambda>c s. s\<lparr>simList := simList s @ [c]\<rparr>) candidates st1))))"

text \<open>
  Variant 2, \<open>showSimilar\<close> (lines 388-408). The \<open>filter\<close> of line 398 keeps a word
  that has an index and the \<open>map\<close> of line 399 reads that index: \<open>score_all_v2\<close> does
  both with one lookup, word by word.
\<close>

fun score_all_v2 :: "state \<Rightarrow> jsstring option \<Rightarrow> nat \<Rightarrow> jsstring list
    \<Rightarrow> error + (jsstring \<times> jsnum) list" where
  "score_all_v2 st word i [] = Inr []"
| "score_all_v2 st word i (w # ws) =
     (if Some w = word then score_all_v2 st word i ws
      else (case wordToIndex st w of
          None \<Rightarrow> score_all_v2 st word i ws
        | Some j \<Rightarrow>
           (case cosineSimByIndex st i j of
              Inl e \<Rightarrow> Inl e
            | Inr s \<Rightarrow>
               (case score_all_v2 st word i ws of
                  Inl e \<Rightarrow> Inl e
                | Inr r \<Rightarrow> Inr ((w, s) # r)))))"

definition showSimilar_v2 :: "env \<Rightarrow> jsstring option \<Rightarrow> state \<Rightarrow> outcome \<times> state" where
  "showSimilar_v2 env word st =
     seq (ensureSimModel_v2 env (st\<lparr>selectedWord := word, simList := []\<rparr>)) (\<lambda>st1.
       case (case word of None \<Rightarrow> None | Some wd \<Rightarrow> wordToIndex st1 wd) of
         None \<Rightarrow> (Returned, st1)
       | Some i \<Rightarrow>
          (case score_all_v2 st1 word i (currentWords st1) of
             Inl e \<Rightarrow> (Thrown e, st1)
           | Inr scored \<Rightarrow>
              (let sims = take 10 (js_sort by_score_desc scored)
               in (Returned, fold (\<lambda>c s. s\<lparr>simList := simList s @ [c]\<rparr>) sims st1))))"

subsection \<open>The run\<close>

text \<open>
  The loop that keeps the words to plot, with the arrays \<open>kept\<close> and \<open>xy\<close> it pushes
  to: variant 1 (lines 177-186) asks for coordinates and for an index, variants 2 to 4
  (lines 426-433, 654-661, 878-885) for coordinates only.
\<close>

fun keep_loop_v1 :: "state \<Rightarrow> jsstring list \<Rightarrow> jsstring list \<Rightarrow> point list
    \<Rightarrow> jsstring list \<times> point list" where
  "keep_loop_v1 st [] kept xy = (kept, xy)"
| "keep_loop_v1 st (w # ws) kept xy =
     (case coordMap st w of
        None \<Rightarrow> keep_loop_v1 st ws kept xy
      | Some c \<Rightarrow>
          if wordToIndex st w = None then keep_loop_v1 st ws kept xy
          else keep_loop_v1 st ws (kept @ [w]) (xy @ [c]))"

fun keep_loop :: "state \<Rightarrow> jsstring list \<Rightarrow> jsstring list \<Rightarrow> point list
    \<Rightarrow> jsstring list \<times> point list" where
  "keep_loop st [] kept xy = (kept, xy)"
| "keep_loop st (w # ws) kept xy =
     (case coordMap st w of
        None \<Rightarrow> keep_loop st ws kept xy
      | Some c \<Rightarrow> keep_loop st ws (kept @ [w]) (xy @ [c]))"

text \<open>
  \<open>try_catch_finally r handler fin\<close>: the \<open>catch\<close> and \<open>finally\<close> blocks around a
  body that ended as \<open>r\<close>; they are not reached while the body is pending.
\<close>

definition try_catch_finally :: "outcome \<times> state \<Rightarrow> (error \<Rightarrow> state \<Rightarrow> state)
    \<Rightarrow> (state \<Rightarrow> state) \<Rightarrow> outcome \<times> state" where
  "try_catch_finally r handler fin = (case r of
       (Returned, st) \<Rightarrow> (Returned, fin st)
     | (Thrown e, st) \<Rightarrow> (Returned, fin (handler e st))
     | (Pending, st) \<Rightarrow> (Pending, st))"

text \<open>
  Variant 1, \<open>run\<close> (lines 166-202), with the content of the text box and the two
  check boxes. Calling \<open>tokenize\<close> on the tokenizer \<open>null\<close> throws a \<open>TypeError\<close>.
\<close>

definition run_v1 :: "jsstring \<Rightarrow> bool \<Rightarrow> bool \<Rightarrow> state \<Rightarrow> outcome \<times> state" where
  "run_v1 input posFilter uniqueOnly st =
     (let txt = trim input in
      if txt = [] then (Returned, st\<lparr>alerts := alerts st @ [AlertEnterText]\<rparr>)
      else
       (let st1 = setStatus StTokenizing (st\<lparr>runDisabled := True\<rparr>) in
        case tokenizer st1 of
          None \<Rightarrow> (Thrown TypeError, st1)
        | Some tk \<Rightarrow>
           (let words = run_words posFilter uniqueOnly (tk txt) in
            case keep_loop_v1 st1 words [] [] of
              (kept, xy) \<Rightarrow>
                if length kept < 2
                then (Returned, (setStatus StTooFewWords st1)\<lparr>runDisabled := False\<rparr>)
                else
                 (let st2 = setStatus (StDone (length kept))
                              (st1\<lparr>currentWords := kept, currentXY := xy\<rparr>);
                      st3 = renderPlot_v1 kept xy st2
                  in seq (showSimilar_v1 (nth_opt kept 0) st3)
                       (\<lambda>st4. (Returned, st4\<lparr>runDisabled := False\<rparr>))))))"

text \<open>Variant 2, \<open>run\<close> (lines 411-451): \<open>run_try_v2\<close> is its \<open>try\<close> block.\<close>

definition run_try_v2 :: "env \<Rightarrow> jsstring \<Rightarrow> bool \<Rightarrow> bool \<Rightarrow> state \<Rightarrow> outcome \<times> state" where
  "run_try_v2 env txt posFilter uniqueOnly st =
     seq (ensureLibsAndTokenizer_v2 env st) (\<lambda>st1.
       (let st2 = setStatus StTokenizing st1 in
        case tokenizer st2 of
          None \<Rightarrow> (Thrown TypeError, st2)
        | Some tk \<Rightarrow>
           (let words = run_words posFilter uniqueOnly (tk txt) in
            seq (ensureCoords env st2) (\<lambda>st3.
              case keep_loop st3 words [] [] of
                (kept, xy) \<Rightarrow>
                  if length kept < 2 then (Returned, setStatus StTooFewWords st3)
                  else renderPlot_v2 kept xy
                         (setStatus (StDone (length kept)) (st3\<lparr>currentWords := kept\<rparr>))))))"

definition run_v2 :: "env \<Rightarrow> jsstring \<Rightarrow> bool \<Rightarrow> bool \<Rightarrow> state \<Rightarrow> outcome \<times> state" where
  "run_v2 env input posFilter uniqueOnly st =
     (let txt = trim input in
      if txt = [] then (Returned, st\<lparr>alerts := alerts st @ [AlertEnterText]\<rparr>)
      else try_catch_finally
             (run_try_v2 env txt posFilter uniqueOnly (st\<lparr>runDisabled := True\<rparr>))
             (\<lambda>e s. setStatus StError
                (s\<lparr>console := console s @ [e], alerts := alerts s @ [AlertError]\<rparr>))
             (\<lambda>s. s\<lparr>runDisabled := False\<rparr>))"

text \<open>Variant 3, \<open>run\<close> (lines 639-679).\<close>

definition run_try_v3 :: "env \<Rightarrow> jsstring \<Rightarrow> bool \<Rightarrow> bool \<Rightarrow> state \<Rightarrow> outcome \<times> state" where
  "run_try_v3 env txt posFilter uniqueOnly st =
     seq (ensurePlotly_v3 env st) (\<lambda>st1.
     seq (ensureTokenizer_v3 env st1) (\<lambda>st2.
     seq (ensureCoords env st2) (\<lambda>st3.
       (let st4 = setStatus StTokenizing st3 in
        case tokenizer st4 of
          None \<Rightarrow> (Thrown TypeError, st4)
        | Some tk \<Rightarrow>
           (let words = run_words posFilter uniqueOnly (tk txt) in
            case keep_loop st4 words [] [] of
              (kept, xy) \<Rightarrow>
                if length kept < 2 then (Returned, setStatus StTooFewWords st4)
                else renderPlot_v2 kept xy
                       (setStatus (StDone (length kept)) (st4\<lparr>currentWords := kept\<rparr>)))))))"

definition run_v3 :: "env \<Rightarrow> jsstring \<Rightarrow> bool \<Rightarrow> bool \<Rightarrow> state \<Rightarrow> outcome \<times> state" where
  "run_v3 env input posFilter uniqueOnly st =
     (let txt = trim input in
      if txt = [] then (Returned, st\<lparr>alerts := alerts st @ [AlertEnterText]\<rparr>)
      else try_catch_finally
             (run_try_v3 env txt posFilter uniqueOnly (st\<lparr>runDisabled := True\<rparr>))
             (\<lambda>e s. setStatus StError
                (s\<lparr>console := console s @ [e], alerts := alerts s @ [AlertErrorMessage e]\<rparr>))
             (\<lambda>s. s\<lparr>runDisabled := False\<rparr>))"

text \<open>Variant 4, \<open>run\<close> (lines 865-900).\<close>

definition run_v4 :: "env \<Rightarrow> jsstring \<Rightarrow> bool \<Rightarrow> bool \<Rightarrow> state \<Rightarrow> outcome \<times> state" where
  "run_v4 env input posFilter uniqueOnly st =
     (let txt = trim input in
      if txt = [] then (Returned, st\<lparr>alerts := alerts st @ [AlertEnterText]\<rparr>)
      else
       (let st1 = setStatus StTokenizing (st\<lparr>runDisabled := True\<rparr>) in
        case tokenizer st1 of
          None \<Rightarrow> (Thrown TypeError, st1)
        | Some tk \<Rightarrow>
           (let words = run_words posFilter uniqueOnly (tk txt) in
            seq (ensureCoordsLoaded_v4 env st1) (\<lambda>st2.
              case keep_loop st2 words [] [] of
                (kept, xy) \<Rightarrow>
                  if length kept < 2
                  then (Returned, (setStatus StTooFewWords st2)\<lparr>runDisabled := False\<rparr>)
                  else (Returned,
                     (renderPlot_v1 kept xy
                        (setStatus (StDone (length kept))
                           (st2\<lparr>currentWords := kept, currentXY := xy\<rparr>)))
                     \<lparr>runDisabled := False\<rparr>)))))"

subsection \<open>A session of variant 2\<close>

text \<open>
  The user clicks the run button (a disabled button sends no click) or a point of the
  plot; the click handler of the plot (lines 381-385) looks the point up in the words
  the plot was drawn with. Each event is handled to its end before the next one.
\<close>

datatype event = RunClick jsstring bool bool | PlotClick nat

fun handle_v2 :: "env \<Rightarrow> event \<Rightarrow> state \<Rightarrow> state" where
  "handle_v2 env (RunClick input posFilter uniqueOnly) st =
     (if runDisabled st then st else snd (run_v2 env input posFilter uniqueOnly st))"
| "handle_v2 env (PlotClick idx) st =
     (case plot st of
        None \<Rightarrow> st
      | Some (words, xy) \<Rightarrow> snd (showSimilar_v2 env (nth_opt words idx) st))"

fun session_v2 :: "(env \<times> event) list \<Rightarrow> state \<Rightarrow> state" where
  "session_v2 [] st = st"
| "session_v2 ((env, ev) # evs) st = session_v2 evs (handle_v2 env ev st)"

section \<open>Reference notions and example data\<close>

text \<open>
  Deduplication that preserves first-occurrence order, said directly: the elements of a
  list at the positions where the element has not occurred before, in the order of the
  positions.
\<close>

definition first_occurrences :: "'a list \<Rightarrow> 'a list" where
  "first_occurrences xs =
     map ((!) xs) (filter (\<lambda>i. xs ! i \<notin> set (take i xs)) [0..<length xs])"

text \<open>
  The module-level variables as the script initializes them (lines 21-35, 249-258,
  484-492, 705-723), on a page that shows nothing yet.
\<close>

definition initial_state :: state where
  "initial_state = \<lparr>tokenizer = None, coordsLoaded = False, coordMap = Map.empty,
     simLoaded = False, vocab = [], wordToIndex = Map.empty, vecData = None,
     currentWords = [], currentXY = [], status = StInitial, runDisabled = False,
     selectedWord = None, simList = [], plot = None, alerts = [], console = [],
     scripts = [], libs = {}, fetched = []\<rparr>"

text \<open>
  Three words of one character each (cat, dog, bird), and an analyzer for the examples
  that makes a noun of every code unit of the text.
\<close>

definition NEKO :: jsstring where "NEKO = [0x732B]"
definition INU :: jsstring where "INU = [0x72AC]"
definition TORI :: jsstring where "TORI = [0x9CE5]"

definition example_tokenizer :: tokenizer_fn where
  "example_tokenizer txt =
     map (\<lambda>c. \<lparr>pos = POS_NOUN, basic_form = Some [c], surface_form = Some [c]\<rparr>) txt"

text \<open>
  A model of three words for the examples: the vector of the first is \<open>(1, 1, 0, \<dots>, 0)\<close>,
  of the second \<open>(1, 0, \<dots>, 0)\<close>, and the third has the zero vector.
\<close>

definition example_vocab :: "jsstring list" where
  "example_vocab = [NEKO, INU, TORI]"

definition example_vectors :: "jsnum list" where
  "example_vectors = (Fin 1 # Fin 1 # replicate 48 (Fin 0)) @ (Fin 1 # replicate 49 (Fin 0))
     @ replicate 50 (Fin 0)"

definition example_model :: state where
  "example_model = initial_state\<lparr>simLoaded := True, vocab := example_vocab,
     wordToIndex := index_map example_vocab, vecData := Some example_vectors\<rparr>"

text \<open>
  What the network answers in the examples: a coordinate file with a header and two rows,
  the vocabulary of the three words, and the 600 bytes of their vectors (\<open>F32_ONE\<close> is
  the binary32 number 1, least significant byte first). \<open>example_number\<close> reads a
  string of one digit, as \<open>Number\<close> does. In \<open>mismatch_env\<close> the buffer has three
  elements only.
\<close>

definition example_number :: "jsstring \<Rightarrow> jsnum" where
  "example_number s = (case s of
       [c] \<Rightarrow> if 0x30 \<le> c \<and> c \<le> 0x39 then Fin (of_nat (c - 0x30)) else NaN
     | _ \<Rightarrow> NaN)"

definition example_csv :: jsstring where
  "example_csv = [0x77, 0x6F, 0x72, 0x64, 0x2C, 0x78, 0x2C, 0x79, 0xA]
     @ NEKO @ [0x2C, 0x31, 0x2C, 0x32, 0xA] @ INU @ [0x2C, 0x33, 0x2C, 0x34, 0xA]"

definition F32_ONE :: "8 word list" where
  "F32_ONE = [0, 0, 0x80, 0x3F]"

definition F32_ZERO :: "8 word list" where
  "F32_ZERO = [0, 0, 0, 0]"

definition example_vec_bytes :: "8 word list" where
  "example_vec_bytes = F32_ONE @ F32_ONE @ concat (replicate 48 F32_ZERO)
     @ F32_ONE @ concat (replicate 49 F32_ZERO) @ concat (replicate 50 F32_ZERO)"

definition example_env :: env where
  "example_env = \<lparr>coords_csv = Some example_csv, vocab_json = Some example_vocab,
     vec_bin = Some example_vec_bytes, script_loads = (\<lambda>a. True),
     tokenizer_build = Built example_tokenizer, to_number = example_number\<rparr>"

definition mismatch_env :: env where
  "mismatch_env = example_env\<lparr>vec_bin := Some (F32_ZERO @ F32_ZERO @ F32_ZERO)\<rparr>"

text \<open>In \<open>ragged_env\<close> the buffer has one byte more than the 600 of its 150 elements.\<close>

definition ragged_env :: env where
  "ragged_env = example_env\<lparr>vec_bin := Some (example_vec_bytes @ [0])\<rparr>"

text \<open>
  \<open>flags_kept st st'\<close>: every readiness flag that is set in \<open>st\<close> is set in \<open>st'\<close>
  (for the tokenizer the variable itself is the flag: lines 312 and 561).
\<close>

definition flags_kept :: "state \<Rightarrow> state \<Rightarrow> bool" where
  "flags_kept st st' = ((coordsLoaded st \<longrightarrow> coordsLoaded st')
     \<and> (simLoaded st \<longrightarrow> simLoaded st')
     \<and> (tokenizer st \<noteq> None \<longrightarrow> tokenizer st' \<noteq> None))"

text \<open>A state of variant 2 with everything loaded, for the examples.\<close>

definition example_ready :: state where
  "example_ready = example_model\<lparr>tokenizer := Some example_tokenizer, coordsLoaded := True,
     coordMap := [NEKO \<mapsto> (Fin 1, Fin 2), INU \<mapsto> (Fin 3, Fin 4), TORI \<mapsto> (Fin 5, Fin 6)],
     scripts := [PLOTLY_URL, KUROMOJI_URL], libs := {PLOTLY_URL, KUROMOJI_URL}\<rparr>"

text \<open>
  A state of the lazy variants after a first run and before any click on the plot: the
  libraries, the tokenizer and the coordinates are loaded, the vocabulary is not.
\<close>

definition example_plot_ready :: state where
  "example_plot_ready = initial_state\<lparr>tokenizer := Some example_tokenizer, coordsLoaded := True,
     coordMap := [NEKO \<mapsto> (Fin 1, Fin 2), INU \<mapsto> (Fin 3, Fin 4), TORI \<mapsto> (Fin 5, Fin 6)],
     scripts := [PLOTLY_URL, KUROMOJI_URL], libs := {PLOTLY_URL, KUROMOJI_URL}\<rparr>"

text \<open>
  \<open>on_grid x\<close>: a finite \<open>x\<close> is a whole multiple of \<open>2 ^ -1074\<close>, the smallest positive
  binary64 number, as every binary64 number is.
\<close>

definition on_grid :: "jsnum \<Rightarrow> bool" where
  "on_grid x = (case x of Fin q \<Rightarrow> (\<exists>m::int. q = of_int m * pow2 (- 1074)) | _ \<Rightarrow> True)"

text \<open>
  What claim C3 says of the list \<open>out\<close> shown for the query \<open>word\<close> with index \<open>i\<close>.
  The eligible candidates are the plotted words other than the query that have an index,
  in the order of the plot; \<open>score w v\<close> says that \<open>v\<close> is the similarity of \<open>w\<close> to
  the query. The list does not hold the query; each entry is an eligible candidate with
  its score; the list has 10 entries, or as many as there are eligible candidates if these
  are fewer; and when no score is \<open>NaN\<close>, the scores descend along the list, and
  for each score in the list the words listed with it are the first eligible candidates
  with that score, in the order of the plot.
\<close>

definition ranked_similar :: "state \<Rightarrow> nat \<Rightarrow> jsstring \<Rightarrow> (jsstring \<times> jsnum) list \<Rightarrow> bool" where
  "ranked_similar st i word out =
     (let elig = filter (\<lambda>w. w \<noteq> word \<and> wordToIndex st w \<noteq> None) (currentWords st);
          score = (\<lambda>w v. case wordToIndex st w of None \<Rightarrow> False
                     | Some j \<Rightarrow> cosineSimByIndex st i j = Inr v)
      in word \<notin> fst ` set out
       \<and> (\<forall>c\<in>set out. fst c \<in> set elig \<and> score (fst c) (snd c))
       \<and> length out = min 10 (length elig)
       \<and> ((\<forall>w\<in>set elig. \<not> score w NaN) \<longrightarrow>
            sorted_wrt (\<lambda>a b. \<not> js_less (snd a) (snd b)) out
            \<and> (\<forall>v\<in>snd ` set out. prefix (map fst (filter (\<lambda>c. snd c = v) out))
                        (filter (\<lambda>w. score w v) elig))))"

text \<open>
  A fourth word (bear) for the examples of the ranking. In \<open>nan_env\<close> it is the fourth
  word of the vocabulary and the first component of its vector is a \<open>NaN\<close>
  (\<open>F32_NAN\<close> is the binary32 quiet \<open>NaN\<close>, least significant byte first). In the state
  \<open>plotted ws\<close> of the lazy variants it has coordinates, the words \<open>ws\<close> are plotted and
  the vocabulary is not loaded yet.
\<close>

definition KUMA :: jsstring where "KUMA = [0x718A]"

definition F32_NAN :: "8 word list" where
  "F32_NAN = [0, 0, 0xC0, 0x7F]"

definition nan_env :: env where
  "nan_env = example_env\<lparr>vocab_json := Some (example_vocab @ [KUMA]),
     vec_bin := Some (example_vec_bytes @ F32_NAN @ concat (replicate 49 F32_ZERO))\<rparr>"

definition plotted :: "jsstring list \<Rightarrow> state" where
  "plotted ws = example_plot_ready\<lparr>coordMap := (coordMap example_plot_ready)(KUMA \<mapsto> (Fin 7, Fin 8)),
     currentWords := ws\<rparr>"

section \<open>Deduplication\<close>

lemma new_Set_Nil: "new_Set [] = []"
  by (simp add: new_Set_def)

lemma new_Set_snoc: "new_Set (xs @ [x]) = set_add (new_Set xs) x"
  by (simp add: new_Set_def)

lemma set_new_Set: "set (new_Set xs) = set xs"
  by (induction xs rule: rev_induct) (auto simp: new_Set_snoc new_Set_Nil set_add_def)

lemma distinct_new_Set: "distinct (new_Set xs)"
  by (induction xs rule: rev_induct) (auto simp: new_Set_snoc new_Set_Nil set_add_def)

lemma subseq_new_Set: "subseq (new_Set xs) xs"
proof (induction xs rule: rev_induct)
  case Nil
  then show ?case by (simp add: new_Set_Nil)
next
  case (snoc x xs)
  show ?case
  proof (cases "x \<in> set (new_Set xs)")
    case True
    then have "new_Set (xs @ [x]) = new_Set xs"
      by (simp add: new_Set_snoc set_add_def)
    with snoc show ?thesis
      by (simp add: subseq_rev_drop_many)
  next
    case False
    then have "new_Set (xs @ [x]) = new_Set xs @ [x]"
      by (simp add: new_Set_snoc set_add_def)
    with snoc show ?thesis
      by (simp add: list_emb_append_mono)
  qed
qed

lemma first_occurrences_snoc:
  "first_occurrences (xs @ [x]) = first_occurrences xs @ (if x \<in> set xs then [] else [x])"
proof -
  have a: "filter (\<lambda>i. (xs @ [x]) ! i \<notin> set (take i xs)
        \<and> (xs @ [x]) ! i \<notin> set (take (i - length xs) [x])) [0..<length xs]
      = filter (\<lambda>i. xs ! i \<notin> set (take i xs)) [0..<length xs]"
    by (rule filter_cong) (simp_all add: nth_append)
  have b: "map ((!) (xs @ [x])) (filter (\<lambda>i. xs ! i \<notin> set (take i xs)) [0..<length xs])
      = map ((!) xs) (filter (\<lambda>i. xs ! i \<notin> set (take i xs)) [0..<length xs])"
    by (rule map_cong) (simp_all add: nth_append)
  show ?thesis
    by (simp add: first_occurrences_def a b)
qed

lemma new_Set_first_occurrences: "new_Set xs = first_occurrences xs"
proof (induction xs rule: rev_induct)
  case Nil
  then show ?case by (simp add: new_Set_Nil first_occurrences_def)
next
  case (snoc x xs)
  then show ?case
    by (simp add: new_Set_snoc set_add_def first_occurrences_snoc set_new_Set[of xs, symmetric])
qed

text \<open>
  Claim C7. For every sequence of tokens and either setting of the part-of-speech filter,
  the words of a run with \<open>uniqueOnly\<close> set have no repeated element, are the words of
  the run without it at their first occurrences, in that order, and so are a subsequence
  of them with the same elements.
\<close>

theorem C7_unique_only:
  "distinct (run_words posFilter True tokens)
   \<and> run_words posFilter True tokens = first_occurrences (run_words posFilter False tokens)
   \<and> subseq (run_words posFilter True tokens) (run_words posFilter False tokens)
   \<and> set (run_words posFilter True tokens) = set (run_words posFilter False tokens)"
  by (simp add: run_words_def distinct_new_Set new_Set_first_occurrences [symmetric]
      subseq_new_Set set_new_Set)

lemma example_tokens_words:
  "tokenize True (example_tokenizer (NEKO @ INU @ NEKO)) = [NEKO, INU, NEKO]"
  by (simp add: tokenize_def example_tokenizer_def NEKO_def INU_def isTargetPOS_def
      token_word_def trim_def js_space_def)

theorem C7_unique_only_witness:
  "run_words True False (example_tokenizer (NEKO @ INU @ NEKO)) = [NEKO, INU, NEKO]
   \<and> run_words True True (example_tokenizer (NEKO @ INU @ NEKO)) = [NEKO, INU]
   \<and> first_occurrences [NEKO, INU, NEKO] = [NEKO, INU]
   \<and> distinct (run_words True True (example_tokenizer (NEKO @ INU @ NEKO)))
   \<and> subseq (run_words True True (example_tokenizer (NEKO @ INU @ NEKO)))
        (run_words True False (example_tokenizer (NEKO @ INU @ NEKO)))"
proof -
  have a: "run_words True False (example_tokenizer (NEKO @ INU @ NEKO)) = [NEKO, INU, NEKO]"
    by (simp add: run_words_def example_tokens_words)
  have b: "new_Set [NEKO, INU, NEKO] = [NEKO, INU]"
    by (simp add: new_Set_def set_add_def NEKO_def INU_def)
  have c: "run_words True True (example_tokenizer (NEKO @ INU @ NEKO)) = [NEKO, INU]"
    by (simp add: run_words_def example_tokens_words b)
  note t = C7_unique_only [of True "example_tokenizer (NEKO @ INU @ NEKO)", unfolded a c]
  have d: "distinct [NEKO, INU]"
    by (rule t [THEN conjunct1])
  have f: "first_occurrences [NEKO, INU, NEKO] = [NEKO, INU]"
    by (rule sym) (rule t [THEN conjunct2, THEN conjunct1])
  have e: "subseq [NEKO, INU] [NEKO, INU, NEKO]"
    by (rule t [THEN conjunct2, THEN conjunct2, THEN conjunct1])
  show ?thesis
    unfolding a c by (intro conjI refl d f e)
qed

section \<open>Facts about the numbers\<close>

lemma isqrt_aux_correct:
  "lo * lo \<le> n \<Longrightarrow> n < hi * hi \<Longrightarrow>
   isqrt_aux n lo hi * isqrt_aux n lo hi \<le> n
   \<and> n < (isqrt_aux n lo hi + 1) * (isqrt_aux n lo hi + 1)"
proof (induction n lo hi rule: isqrt_aux.induct)
  case (1 n lo hi)
  show ?case
  proof (cases "hi \<le> lo + 1")
    case True
    have "n < (lo + 1) * (lo + 1)"
      using "1.prems"(2) True
      by (meson le_trans mult_le_mono not_le)
    with True "1.prems" show ?thesis
      by (subst (1 2 3 4) isqrt_aux.simps) simp
  next
    case False
    show ?thesis
    proof (cases "((lo + hi) div 2) * ((lo + hi) div 2) \<le> n")
      case le: True
      have eq: "isqrt_aux n lo hi = isqrt_aux n ((lo + hi) div 2) hi"
        using False le by (subst isqrt_aux.simps) (simp add: Let_def)
      show ?thesis
        unfolding eq using "1.IH"(1)[OF False refl le le "1.prems"(2)] .
    next
      case gt: False
      have eq: "isqrt_aux n lo hi = isqrt_aux n lo ((lo + hi) div 2)"
        using False gt by (subst isqrt_aux.simps) (simp add: Let_def)
      show ?thesis
        unfolding eq using "1.IH"(2)[OF False refl gt "1.prems"(1)] gt by simp
    qed
  qed
qed

lemma isqrt_correct: "isqrt n * isqrt n \<le> n \<and> n < (isqrt n + 1) * (isqrt n + 1)"
  unfolding isqrt_def by (rule isqrt_aux_correct) simp_all

lemma isqrt_unique:
  assumes "k * k \<le> n" and "n < (k + 1) * (k + 1)"
  shows "isqrt n = k"
proof (rule ccontr)
  assume ne: "isqrt n \<noteq> k"
  have c1: "isqrt n * isqrt n \<le> n" and c2: "n < (isqrt n + 1) * (isqrt n + 1)"
    using isqrt_correct [of n] by blast+
  show False
  proof (cases "isqrt n < k")
    case True
    then have "isqrt n + 1 \<le> k" by arith
    then have "(isqrt n + 1) * (isqrt n + 1) \<le> k * k" by (intro mult_le_mono)
    then have "n < k * k" using c2 by (rule less_le_trans[rotated])
    with assms(1) show False by arith
  next
    case False
    with ne have "k + 1 \<le> isqrt n" by arith
    then have "(k + 1) * (k + 1) \<le> isqrt n * isqrt n" by (intro mult_le_mono)
    then have "n < isqrt n * isqrt n" using assms(2) by (rule less_le_trans[rotated])
    with c1 show False by arith
  qed
qed


lemma pow2_powi: "pow2 e = 2 powi e"
  by (simp add: pow2_def power_int_def power_one_over inverse_eq_divide)

lemma pow2_pos [simp]: "0 < pow2 e"
  by (simp add: pow2_powi)

lemma pow2_add: "pow2 (a + b) = pow2 a * pow2 b"
  by (simp add: pow2_powi power_int_add)

lemma pow2_diff: "pow2 (a - b) = pow2 a / pow2 b"
  by (simp add: pow2_powi power_int_diff)

lemma pow2_mono: "a \<le> b \<Longrightarrow> pow2 a \<le> pow2 b"
  by (simp add: pow2_powi power_int_increasing)

lemma pow2_strict_mono: "a < b \<Longrightarrow> pow2 a < pow2 b"
  by (simp add: pow2_powi power_int_strict_increasing)

lemma pow2_nat: "0 \<le> e \<Longrightarrow> pow2 e = 2 ^ nat e"
  by (simp add: pow2_def)

lemma pow2_Suc: "pow2 (e + 1) = 2 * pow2 e"
  by (simp add: pow2_powi power_int_add_1)

lemma ilog2_bounds:
  assumes "0 < q"
  shows "pow2 (ilog2 q) \<le> q \<and> q < pow2 (ilog2 q + 1)"
proof -
  obtain a b where ab: "quotient_of q = (a, b)"
    by (cases "quotient_of q")
  have b: "0 < b" using ab by (rule quotient_of_denom_pos)
  have q: "q = of_int a / of_int b" using ab by (rule quotient_of_div)
  have a: "0 < a"
    using assms b unfolding q by (simp add: zero_less_divide_iff)
  let ?A = "bitlen a" and ?B = "bitlen b"
  have A1: "1 \<le> ?A" using a by (simp add: bitlen_alt_def)
  have B1: "1 \<le> ?B" using b by (simp add: bitlen_alt_def)
  have "2 ^ nat (?A - 1) \<le> a" and "a < 2 ^ nat ?A"
    using bitlen_bounds [OF a] by blast+
  then have "(of_int (2 ^ nat (?A - 1)) :: rat) \<le> of_int a"
    and "(of_int a :: rat) < of_int (2 ^ nat ?A)"
    by (simp_all only: of_int_le_iff of_int_less_iff)
  then have alo: "pow2 (?A - 1) \<le> of_int a" and ahi: "(of_int a :: rat) < pow2 ?A"
    using A1 by (simp_all add: pow2_def)
  have "2 ^ nat (?B - 1) \<le> b" and "b < 2 ^ nat ?B"
    using bitlen_bounds [OF b] by blast+
  then have "(of_int (2 ^ nat (?B - 1)) :: rat) \<le> of_int b"
    and "(of_int b :: rat) < of_int (2 ^ nat ?B)"
    by (simp_all only: of_int_le_iff of_int_less_iff)
  then have blo: "pow2 (?B - 1) \<le> of_int b" and bhi: "(of_int b :: rat) < pow2 ?B"
    using B1 by (simp_all add: pow2_def)
  have bpos: "(0::rat) < of_int b" using b by simp
  have lo: "pow2 (?A - ?B - 1) < q"
  proof -
    have "pow2 (?A - ?B - 1) * of_int b < pow2 (?A - ?B - 1) * pow2 ?B"
      using bhi by simp
    also have "\<dots> = pow2 (?A - 1)"
      by (subst pow2_add [symmetric]) simp
    also have "\<dots> \<le> of_int a" by (rule alo)
    finally show ?thesis
      unfolding q using bpos by (simp add: pos_less_divide_eq)
  qed
  have hi: "q < pow2 (?A - ?B + 1)"
  proof -
    have "of_int a < pow2 ?A" by (rule ahi)
    also have "\<dots> = pow2 (?A - ?B + 1) * pow2 (?B - 1)"
      by (subst pow2_add [symmetric]) simp
    also have "\<dots> \<le> pow2 (?A - ?B + 1) * of_int b"
      using blo by simp
    finally show ?thesis
      unfolding q using bpos by (simp add: pos_divide_less_eq)
  qed
  show ?thesis
  proof (cases "pow2 (?A - ?B) \<le> q")
    case True
    then have "ilog2 q = ?A - ?B"
      by (simp add: ilog2_def ab Let_def)
    with True hi show ?thesis by simp
  next
    case False
    then have "ilog2 q = ?A - ?B - 1"
      by (simp add: ilog2_def ab Let_def)
    with False lo show ?thesis by simp
  qed
qed

lemma ilog2_unique:
  assumes "0 < q" and "pow2 e \<le> q" and "q < pow2 (e + 1)"
  shows "ilog2 q = e"
proof (rule ccontr)
  assume ne: "ilog2 q \<noteq> e"
  note b = ilog2_bounds [OF assms(1)]
  show False
  proof (cases "ilog2 q < e")
    case True
    then have "pow2 (ilog2 q + 1) \<le> pow2 e" by (intro pow2_mono) simp
    with b assms show False by simp
  next
    case False
    with ne have "pow2 (e + 1) \<le> pow2 (ilog2 q)" by (intro pow2_mono) simp
    with b assms show False by simp
  qed
qed

lemma round_half_even_bounds:
  "\<bar>of_int (round_half_even x) - x\<bar> \<le> 1 / 2"
proof -
  have "of_int \<lfloor>x\<rfloor> \<le> x" and "x < of_int \<lfloor>x\<rfloor> + 1"
    by linarith+
  then show ?thesis
    by (auto simp: round_half_even_def Let_def)
qed

lemma round_half_even_unique:
  assumes "\<bar>x - of_int n\<bar> < 1 / 2"
  shows "round_half_even x = n"
proof -
  have "\<bar>(of_int (round_half_even x) :: rat) - of_int n\<bar> < 1"
    using round_half_even_bounds [of x] assms by linarith
  then have "\<bar>round_half_even x - n\<bar> < 1"
    by (metis of_int_diff of_int_abs of_int_less_iff of_int_1)
  then show ?thesis by simp
qed

lemma round_half_even_of_int [simp]: "round_half_even (of_int n) = n"
  by (rule round_half_even_unique) simp

lemma round_half_even_mono:
  assumes "x \<le> y"
  shows "round_half_even x \<le> round_half_even y"
proof -
  have fx: "of_int \<lfloor>x\<rfloor> \<le> x" "x < of_int \<lfloor>x\<rfloor> + 1" by linarith+
  have fy: "of_int \<lfloor>y\<rfloor> \<le> y" "y < of_int \<lfloor>y\<rfloor> + 1" by linarith+
  have fl: "\<lfloor>x\<rfloor> \<le> \<lfloor>y\<rfloor>" using assms by (rule floor_mono)
  show ?thesis
  proof (cases "\<lfloor>x\<rfloor> = \<lfloor>y\<rfloor>")
    case True
    with assms show ?thesis
      by (auto simp: round_half_even_def Let_def)
  next
    case False
    with fl have "\<lfloor>x\<rfloor> + 1 \<le> \<lfloor>y\<rfloor>" by simp
    moreover have "round_half_even x \<le> \<lfloor>x\<rfloor> + 1"
      by (simp add: round_half_even_def Let_def)
    moreover have "\<lfloor>y\<rfloor> \<le> round_half_even y"
      by (simp add: round_half_even_def Let_def)
    ultimately show ?thesis by linarith
  qed
qed

lemma round_double_eval:
  assumes "0 < q" and "pow2 e \<le> q" and "q < pow2 (e + 1)" and "- 1022 \<le> e"
    and "\<bar>q / pow2 (e - 52) - of_int n\<bar> < 1 / 2"
    and "of_int n * pow2 (e - 52) < pow2 1024"
  shows "round_double q = Fin (of_int n * pow2 (e - 52))"
proof -
  have i: "ilog2 q = e" using assms(1-3) by (rule ilog2_unique)
  have r: "round_half_even (q / pow2 (e - 52)) = n"
    using assms(5) by (rule round_half_even_unique)
  have m: "max e (- 1022) = e" using assms(4) by simp
  show ?thesis
    using assms(1,6) by (simp add: round_double_def Let_def i m r)
qed

lemma round_double_1: "round_double 1 = Fin 1"
  using round_double_eval [of 1 0 "2 ^ 52"] by (simp add: pow2_def)

lemma round_double_2: "round_double 2 = Fin 2"
  using round_double_eval [of 2 1 "2 ^ 52"] by (simp add: pow2_def)

lemma isqrt_2_104: "isqrt (2 * 2 ^ 104) = 6369051672525772"
  by (rule isqrt_unique) simp_all

lemma isqrt_1_104: "isqrt (2 ^ 104) = 2 ^ 52"
  by (rule isqrt_unique) simp_all

lemma ilog2_1: "ilog2 1 = 0"
  by (rule ilog2_unique) (simp_all add: pow2_def)

lemma ilog2_2: "ilog2 2 = 1"
  by (rule ilog2_unique) (simp_all add: pow2_def)

lemma fsqrt_1: "fsqrt (Fin 1) = Fin 1"
proof -
  have "isqrt (nat \<lfloor>(20282409603651670423947251286016::rat)\<rfloor>) = 4503599627370496"
    using isqrt_1_104 by simp
  then show ?thesis
    by (simp add: fsqrt.simps ilog2_1 pow2_def Let_def)
qed

lemma fsqrt_2: "fsqrt (Fin 2) = Fin (6369051672525773 / 4503599627370496)"
proof -
  have "isqrt (nat \<lfloor>(40564819207303340847894502572032::rat)\<rfloor>) = 6369051672525772"
    using isqrt_2_104 by simp
  then show ?thesis
    by (simp add: fsqrt.simps ilog2_2 pow2_def Let_def)
qed

lemma fmul_sqrt2_sqrt2:
  "fmul (Fin (6369051672525773 / 4503599627370496)) (Fin (6369051672525773 / 4503599627370496))
     = Fin (4503599627370497 / 2251799813685248)"
  using round_double_eval [of "6369051672525773 / 4503599627370496 * (6369051672525773 / 4503599627370496)"
      1 4503599627370497]
  by (simp add: pow2_def)

lemma fdiv_2_sqrt2sq:
  "fdiv (Fin 2) (Fin (4503599627370497 / 2251799813685248))
     = Fin (4503599627370495 / 4503599627370496)"
  using round_double_eval [of "2 / (4503599627370497 / 2251799813685248)" "- 1" 9007199254740990]
  by (simp add: pow2_def)

section \<open>Facts about the cosine similarity\<close>

lemma round_double_0: "round_double 0 = Fin 0"
  by (simp add: round_double_def)

lemma cos_fold_zero_i:
  assumes "\<forall>k\<in>set ks. vec_get vd (offI + k) = Fin 0"
  shows "fst (snd (fold (cos_step vd offI offJ) ks (d, Fin 0, nj))) = Fin 0"
  using assms
proof (induction ks arbitrary: d nj)
  case Nil
  then show ?case by simp
next
  case (Cons k ks)
  have "cos_step vd offI offJ k (d, Fin 0, nj)
      = (fadd d (fmul (Fin 0) (vec_get vd (offJ + k))), Fin 0,
         fadd nj (fmul (vec_get vd (offJ + k)) (vec_get vd (offJ + k))))"
    using Cons.prems by (simp add: cos_step_def round_double_0 Let_def)
  then show ?case
    using Cons.IH Cons.prems by simp
qed

lemma cos_fold_zero_j:
  assumes "\<forall>k\<in>set ks. vec_get vd (offJ + k) = Fin 0"
  shows "snd (snd (fold (cos_step vd offI offJ) ks (d, ni, Fin 0))) = Fin 0"
  using assms
proof (induction ks arbitrary: d ni)
  case Nil
  then show ?case by simp
next
  case (Cons k ks)
  have "cos_step vd offI offJ k (d, ni, Fin 0)
      = (fadd d (fmul (vec_get vd (offI + k)) (Fin 0)),
         fadd ni (fmul (vec_get vd (offI + k)) (vec_get vd (offI + k))), Fin 0)"
    using Cons.prems by (simp add: cos_step_def round_double_0 Let_def)
  then show ?case
    using Cons.IH Cons.prems by simp
qed

lemma cosine_zero:
  assumes "vecData st = Some vd"
    and "(\<forall>k<SIM_D. vec_get vd (i * SIM_D + k) = Fin 0)
       \<or> (\<forall>k<SIM_D. vec_get vd (j * SIM_D + k) = Fin 0)"
  shows "cosineSimByIndex st i j = Inr (Fin 0)"
proof -
  obtain d ni nj where f: "fold (cos_step vd (i * SIM_D) (j * SIM_D)) [0..<SIM_D]
      (Fin 0, Fin 0, Fin 0) = (d, ni, nj)"
    by (metis prod_cases3)
  have "ni = Fin 0 \<or> nj = Fin 0"
  proof (rule disjE [OF assms(2)])
    assume "\<forall>k<SIM_D. vec_get vd (i * SIM_D + k) = Fin 0"
    then have "fst (snd (fold (cos_step vd (i * SIM_D) (j * SIM_D)) [0..<SIM_D]
        (Fin 0, Fin 0, Fin 0))) = Fin 0"
      by (intro cos_fold_zero_i) simp
    then show ?thesis by (simp add: f)
  next
    assume "\<forall>k<SIM_D. vec_get vd (j * SIM_D + k) = Fin 0"
    then have "snd (snd (fold (cos_step vd (i * SIM_D) (j * SIM_D)) [0..<SIM_D]
        (Fin 0, Fin 0, Fin 0))) = Fin 0"
      by (intro cos_fold_zero_j) simp
    then show ?thesis by (simp add: f)
  qed
  then show ?thesis
    by (auto simp: cosineSimByIndex_def assms(1) Let_def f)
qed

lemma cos_fold_tail_zero:
  assumes "\<forall>k\<in>set ks. vec_get vd (offI + k) = Fin 0 \<and> vec_get vd (offJ + k) = Fin 0"
    and "round_double d = Fin d" and "round_double a = Fin a" and "round_double b = Fin b"
  shows "fold (cos_step vd offI offJ) ks (Fin d, Fin a, Fin b) = (Fin d, Fin a, Fin b)"
  using assms(1)
proof (induction ks)
  case Nil
  then show ?case by simp
next
  case (Cons k ks)
  have "cos_step vd offI offJ k (Fin d, Fin a, Fin b) = (Fin d, Fin a, Fin b)"
    using Cons.prems assms(2-4) by (simp add: cos_step_def round_double_0 Let_def)
  then show ?case
    using Cons.IH Cons.prems by simp
qed

lemma upt_SIM_D: "[0..<SIM_D] = 0 # 1 # [2..<50]"
proof -
  have "[0..<50] = 0 # [Suc 0..<50]"
    by (rule upt_conv_Cons) simp
  also have "[Suc 0..<50] = Suc 0 # [Suc (Suc 0)..<50]"
    by (rule upt_conv_Cons) simp
  finally show ?thesis
    by (simp only: SIM_D_def One_nat_def numeral_2_eq_2)
qed

lemma vec_get_example:
  "vec_get example_vectors 0 = Fin 1"
  "vec_get example_vectors 1 = Fin 1"
  "vec_get example_vectors (Suc 0) = Fin 1"
  "vec_get example_vectors 50 = Fin 1"
  "vec_get example_vectors 51 = Fin 0"
  by (simp_all add: vec_get_def example_vectors_def nth_append)

lemma vec_get_example_zero:
  "2 \<le> k \<Longrightarrow> k < 50 \<Longrightarrow> vec_get example_vectors k = Fin 0"
  "51 \<le> k \<Longrightarrow> k < 150 \<Longrightarrow> vec_get example_vectors k = Fin 0"
  by (simp_all add: vec_get_def example_vectors_def nth_append nth_Cons')

lemma cosine_sparse:
  assumes "vecData st = Some vd"
    and "\<forall>k\<in>set [2..<50]. vec_get vd (i * SIM_D + k) = Fin 0 \<and> vec_get vd (j * SIM_D + k) = Fin 0"
    and "cos_step vd (i * SIM_D) (j * SIM_D) 1
           (cos_step vd (i * SIM_D) (j * SIM_D) 0 (Fin 0, Fin 0, Fin 0)) = (Fin d, Fin a, Fin b)"
    and "round_double d = Fin d" and "round_double a = Fin a" and "round_double b = Fin b"
  shows "cosineSimByIndex st i j =
     (if a = 0 \<or> b = 0 then Inr (Fin 0)
      else Inr (fdiv (Fin d) (fmul (fsqrt (Fin a)) (fsqrt (Fin b)))))"
proof -
  have "fold (cos_step vd (i * SIM_D) (j * SIM_D)) [0..<SIM_D] (Fin 0, Fin 0, Fin 0)
      = fold (cos_step vd (i * SIM_D) (j * SIM_D)) [2..<50] (Fin d, Fin a, Fin b)"
    by (simp only: upt_SIM_D fold_simps assms(3))
  also have "\<dots> = (Fin d, Fin a, Fin b)"
    using assms(2,4,5,6) by (rule cos_fold_tail_zero)
  finally show ?thesis
    by (simp add: cosineSimByIndex_def assms(1) Let_def)
qed

lemma vecData_example_model: "vecData example_model = Some example_vectors"
  by (simp add: example_model_def)

lemma round_double_sqrt2:
  "round_double (6369051672525773 / 4503599627370496) = Fin (6369051672525773 / 4503599627370496)"
  using round_double_eval [of "6369051672525773 / 4503599627370496" 0 6369051672525773]
  by (simp add: pow2_def)

lemma fdiv_1_sqrt2:
  "fdiv (Fin 1) (Fin (6369051672525773 / 4503599627370496))
     = Fin (1592262918131443 / 2251799813685248)"
  using round_double_eval [of "1 / (6369051672525773 / 4503599627370496)" "- 1" 6369051672525772]
  by (simp add: pow2_def)

lemma cosine_neko_neko:
  "cosineSimByIndex example_model 0 0 = Inr (Fin (4503599627370495 / 4503599627370496))"
proof -
  have "cosineSimByIndex example_model 0 0 =
     (if (2::rat) = 0 \<or> (2::rat) = 0 then Inr (Fin 0)
      else Inr (fdiv (Fin 2) (fmul (fsqrt (Fin 2)) (fsqrt (Fin 2)))))"
    by (rule cosine_sparse [OF vecData_example_model])
      (simp_all add: vec_get_example vec_get_example_zero cos_step_def Let_def
        round_double_1 round_double_2)
  then have "cosineSimByIndex example_model 0 0 =
      Inr (fdiv (Fin 2) (fmul (fsqrt (Fin 2)) (fsqrt (Fin 2))))"
    by (simp del: fdiv.simps fmul.simps)
  then show ?thesis
    by (simp only: fsqrt_2 fmul_sqrt2_sqrt2 fdiv_2_sqrt2sq)
qed

lemma cosine_inu_inu:
  "cosineSimByIndex example_model 1 1 = Inr (Fin 1)"
proof -
  have "cosineSimByIndex example_model 1 1 =
     (if (1::rat) = 0 \<or> (1::rat) = 0 then Inr (Fin 0)
      else Inr (fdiv (Fin 1) (fmul (fsqrt (Fin 1)) (fsqrt (Fin 1)))))"
    by (rule cosine_sparse [OF vecData_example_model])
      (simp_all add: vec_get_example vec_get_example_zero cos_step_def Let_def SIM_D_def
        round_double_1 round_double_0)
  then show ?thesis
    by (simp add: fsqrt_1 round_double_1)
qed

lemma cosine_inu_neko:
  "cosineSimByIndex example_model 1 0 = Inr (Fin (1592262918131443 / 2251799813685248))"
proof -
  have "cosineSimByIndex example_model 1 0 =
     (if (1::rat) = 0 \<or> (2::rat) = 0 then Inr (Fin 0)
      else Inr (fdiv (Fin 1) (fmul (fsqrt (Fin 1)) (fsqrt (Fin 2)))))"
    by (rule cosine_sparse [OF vecData_example_model])
      (simp_all add: vec_get_example vec_get_example_zero cos_step_def Let_def SIM_D_def
        round_double_1 round_double_2 round_double_0)
  then have "cosineSimByIndex example_model 1 0 =
      Inr (fdiv (Fin 1) (fmul (fsqrt (Fin 1)) (fsqrt (Fin 2))))"
    by (simp del: fdiv.simps fmul.simps)
  moreover have "fmul (Fin 1) (Fin (6369051672525773 / 4503599627370496))
      = Fin (6369051672525773 / 4503599627370496)"
    by (simp add: round_double_sqrt2)
  ultimately show ?thesis
    by (simp only: fsqrt_1 fsqrt_2 fdiv_1_sqrt2)
qed

lemma cosine_tori:
  "cosineSimByIndex example_model i 2 = Inr (Fin 0)"
  by (rule cosine_zero [OF vecData_example_model])
    (simp add: vec_get_example_zero SIM_D_def)

section \<open>Loading the vocabulary and the vectors\<close>

lemma length_float32_elements: "length (float32_elements buf) = length buf div 4"
  by (induction buf rule: float32_elements.induct) simp_all

lemma new_Float32Array_ok:
  "length buf mod 4 = 0 \<Longrightarrow> new_Float32Array buf = Inr (float32_elements buf)"
  by (simp add: new_Float32Array_def)

lemma loadVocabAndVec_v1_fetched:
  assumes "vocab_json env = Some v" and "vec_bin env = Some buf" and "length buf mod 4 = 0"
  shows "loadVocabAndVec_v1 env st =
    (if length (float32_elements buf) \<noteq> length v * SIM_D
     then (Thrown (SizeMismatch (length (float32_elements buf)) (length v * SIM_D)),
           st\<lparr>status := StLoadingVec, fetched := fetched st @ [VOCAB_JSON, VEC_BIN],
              vocab := v, wordToIndex := index_map v, vecData := Some (float32_elements buf)\<rparr>)
     else (Returned,
           st\<lparr>status := StLoadingVec, fetched := fetched st @ [VOCAB_JSON, VEC_BIN],
              vocab := v, wordToIndex := index_map v, vecData := Some (float32_elements buf)\<rparr>))"
  using assms
  by (simp add: loadVocabAndVec_v1_def new_Float32Array_ok Let_def fetch_def setStatus_def)

lemma ensureSimModel_v2_fetched:
  assumes "vocab_json env = Some v" and "vec_bin env = Some buf" and "length buf mod 4 = 0"
    and "\<not> simLoaded st"
  shows "ensureSimModel_v2 env st =
    (if length (float32_elements buf) \<noteq> length v * SIM_D
     then (Thrown (SizeMismatch (length (float32_elements buf)) (length v * SIM_D)),
           st\<lparr>status := StLoadingSim, fetched := fetched st @ [VOCAB_JSON, VEC_BIN],
              wordToIndex := index_map v, vecData := Some (float32_elements buf)\<rparr>)
     else (Returned,
           st\<lparr>status := StLoadingSim, fetched := fetched st @ [VOCAB_JSON, VEC_BIN],
              wordToIndex := index_map v, vecData := Some (float32_elements buf),
              simLoaded := True\<rparr>))"
  using assms
  by (simp add: ensureSimModel_v2_def new_Float32Array_ok Let_def fetch_def setStatus_def)

lemma ensureSimModelLoaded_v4_fetched:
  assumes "vocab_json env = Some v" and "vec_bin env = Some buf" and "length buf mod 4 = 0"
    and "\<not> simLoaded st"
  shows "ensureSimModelLoaded_v4 env st =
    (if length (float32_elements buf) \<noteq> length v * SIM_D
     then (Thrown (SizeMismatch (length (float32_elements buf)) (length v * SIM_D)),
           st\<lparr>status := StLoadingSim, fetched := fetched st @ [VOCAB_JSON, VEC_BIN],
              vocab := v, wordToIndex := index_map v, vecData := Some (float32_elements buf)\<rparr>)
     else (Returned,
           st\<lparr>status := StReadySim, fetched := fetched st @ [VOCAB_JSON, VEC_BIN],
              vocab := v, wordToIndex := index_map v, vecData := Some (float32_elements buf),
              simLoaded := True\<rparr>))"
  using assms
  by (simp add: ensureSimModelLoaded_v4_def new_Float32Array_ok Let_def fetch_def setStatus_def)

lemma float32_elements_zeros:
  "float32_elements (concat (replicate n F32_ZERO) @ bs) = replicate n (Fin 0) @ float32_elements bs"
  by (induction n) (simp_all add: F32_ZERO_def float32_value_def)

lemma float32_elements_one:
  "float32_elements (F32_ONE @ bs) = Fin 1 # float32_elements bs"
  by (simp add: F32_ONE_def float32_value_def pow2_def)

lemma float32_elements_example: "float32_elements example_vec_bytes = example_vectors"
  using float32_elements_zeros [of 50 "[]"]
  by (simp add: example_vec_bytes_def example_vectors_def float32_elements_one
      float32_elements_zeros)

lemma length_example_vec_bytes: "length example_vec_bytes = 600"
  by (simp add: example_vec_bytes_def F32_ONE_def F32_ZERO_def length_concat sum_list_replicate)

lemma float32_elements_mismatch:
  "float32_elements (F32_ZERO @ F32_ZERO @ F32_ZERO) = [Fin 0, Fin 0, Fin 0]"
  by (simp add: F32_ZERO_def float32_value_def)

lemma loadVocabAndVec_v1_ragged:
  assumes "vocab_json env = Some v" and "vec_bin env = Some buf" and "length buf mod 4 \<noteq> 0"
  shows "loadVocabAndVec_v1 env st =
    (Thrown RangeError,
     st\<lparr>status := StLoadingVec, fetched := fetched st @ [VOCAB_JSON, VEC_BIN],
        vocab := v, wordToIndex := index_map v\<rparr>)"
  using assms
  by (simp add: loadVocabAndVec_v1_def new_Float32Array_def Let_def fetch_def setStatus_def)

lemma ensureSimModel_v2_ragged:
  assumes "vocab_json env = Some v" and "vec_bin env = Some buf" and "length buf mod 4 \<noteq> 0"
    and "\<not> simLoaded st"
  shows "ensureSimModel_v2 env st =
    (Thrown RangeError,
     st\<lparr>status := StLoadingSim, fetched := fetched st @ [VOCAB_JSON, VEC_BIN],
        wordToIndex := index_map v\<rparr>)"
  using assms
  by (simp add: ensureSimModel_v2_def new_Float32Array_def Let_def fetch_def setStatus_def)

lemma ragged_env_fields:
  "vocab_json ragged_env = Some example_vocab"
  "vec_bin ragged_env = Some (example_vec_bytes @ [0])"
  by (simp_all add: ragged_env_def example_env_def)

text \<open>
  Claim C1 as stated fails on a buffer whose length in bytes is not a multiple of 4
  (lines 75 and 355: \<open>new Float32Array(buf)\<close> throws a \<open>RangeError\<close> before the
  lengths are compared). With the vocabulary of three words and a buffer of 601 bytes,
  which is the 150 elements expected and one byte more, both loaders throw the
  \<open>RangeError\<close>, not the size-mismatch error, and the flag stays false.
\<close>

theorem C1_ragged_buffer_counterexample:
  "vocab_json ragged_env = Some example_vocab
   \<and> length example_vocab * 50 = 150
   \<and> vec_bin ragged_env = Some (example_vec_bytes @ [0])
   \<and> length (example_vec_bytes @ [0]) = 601
   \<and> fst (loadVocabAndVec_v1 ragged_env initial_state) = Thrown RangeError
   \<and> fst (ensureSimModel_v2 ragged_env initial_state) = Thrown RangeError
   \<and> \<not> simLoaded (snd (ensureSimModel_v2 ragged_env initial_state))"
proof -
  have i: "\<not> simLoaded initial_state"
    by (simp add: initial_state_def)
  have l: "length (example_vec_bytes @ [0]) mod 4 \<noteq> 0"
    by (simp add: length_example_vec_bytes)
  show ?thesis
    by (simp add: ragged_env_fields length_example_vec_bytes
        loadVocabAndVec_v1_ragged [OF ragged_env_fields l]
        ensureSimModel_v2_ragged [OF ragged_env_fields l i] i)
      (simp add: example_vocab_def)
qed

text \<open>
  Claim C1, amended. Let the vocabulary and the buffer have been fetched and the model be
  not loaded yet. \<open>loadVocabAndVec\<close> (variant 1) and \<open>ensureSimModel\<close> (variant 2)
  return exactly when the buffer holds whole binary32 elements (its length in bytes is a
  multiple of 4) and their number is 50 times the length of the vocabulary. A buffer of
  whole elements in any other number makes them throw the size-mismatch error; a buffer
  whose length is not a multiple of 4 makes them throw the \<open>RangeError\<close> of the typed
  array. \<open>ensureSimModel\<close> sets its flag exactly when it returns. A buffer of whole
  elements has a quarter as many elements as bytes.
\<close>

theorem C1_load_iff_length:
  assumes "vocab_json env = Some v" and "vec_bin env = Some buf" and "\<not> simLoaded st"
  shows "(fst (loadVocabAndVec_v1 env st) = Returned
          \<longleftrightarrow> length buf mod 4 = 0 \<and> length (float32_elements buf) = length v * 50)
    \<and> (length buf mod 4 = 0 \<and> length (float32_elements buf) \<noteq> length v * 50 \<longrightarrow>
          fst (loadVocabAndVec_v1 env st)
            = Thrown (SizeMismatch (length (float32_elements buf)) (length v * 50)))
    \<and> (length buf mod 4 \<noteq> 0 \<longrightarrow> fst (loadVocabAndVec_v1 env st) = Thrown RangeError)
    \<and> (fst (ensureSimModel_v2 env st) = Returned
          \<longleftrightarrow> length buf mod 4 = 0 \<and> length (float32_elements buf) = length v * 50)
    \<and> (simLoaded (snd (ensureSimModel_v2 env st))
          \<longleftrightarrow> length buf mod 4 = 0 \<and> length (float32_elements buf) = length v * 50)
    \<and> (length buf mod 4 = 0 \<and> length (float32_elements buf) \<noteq> length v * 50 \<longrightarrow>
          fst (ensureSimModel_v2 env st)
            = Thrown (SizeMismatch (length (float32_elements buf)) (length v * 50)))
    \<and> (length buf mod 4 \<noteq> 0 \<longrightarrow> fst (ensureSimModel_v2 env st) = Thrown RangeError)
    \<and> (length buf mod 4 = 0 \<longrightarrow> length (float32_elements buf) = length buf div 4)"
proof (cases "length buf mod 4 = 0")
  case True
  then show ?thesis
    by (simp add: loadVocabAndVec_v1_fetched [OF assms(1,2) True]
        ensureSimModel_v2_fetched [OF assms(1,2) True assms(3)] SIM_D_def
        length_float32_elements assms(3))
next
  case False
  then show ?thesis
    by (simp add: loadVocabAndVec_v1_ragged [OF assms(1,2) False]
        ensureSimModel_v2_ragged [OF assms(1,2) False assms(3)] assms(3))
qed

lemma example_env_fields:
  "vocab_json example_env = Some example_vocab"
  "vec_bin example_env = Some example_vec_bytes"
  "vocab_json mismatch_env = Some example_vocab"
  "vec_bin mismatch_env = Some (F32_ZERO @ F32_ZERO @ F32_ZERO)"
  by (simp_all add: example_env_def mismatch_env_def)

theorem C1_load_iff_length_witness:
  "fst (loadVocabAndVec_v1 example_env initial_state) = Returned
   \<and> fst (ensureSimModel_v2 example_env initial_state) = Returned
   \<and> simLoaded (snd (ensureSimModel_v2 example_env initial_state))
   \<and> fst (loadVocabAndVec_v1 mismatch_env initial_state) = Thrown (SizeMismatch 3 150)
   \<and> fst (ensureSimModel_v2 mismatch_env initial_state) = Thrown (SizeMismatch 3 150)
   \<and> \<not> simLoaded (snd (ensureSimModel_v2 mismatch_env initial_state))
   \<and> fst (loadVocabAndVec_v1 ragged_env initial_state) = Thrown RangeError
   \<and> fst (ensureSimModel_v2 ragged_env initial_state) = Thrown RangeError
   \<and> \<not> simLoaded (snd (ensureSimModel_v2 ragged_env initial_state))"
proof -
  have i: "\<not> simLoaded initial_state"
    by (simp add: initial_state_def)
  have z: "length F32_ZERO = 4"
    by (simp add: F32_ZERO_def)
  have la: "length (float32_elements example_vec_bytes) = 150"
    by (simp add: float32_elements_example example_vectors_def)
  have lb: "length (float32_elements (F32_ZERO @ F32_ZERO @ F32_ZERO)) = 3"
    by (simp add: float32_elements_mismatch)
  have v: "length example_vocab = 3"
    by (simp add: example_vocab_def)
  show ?thesis
    using C1_load_iff_length [OF example_env_fields(1,2) i]
      C1_load_iff_length [OF example_env_fields(3,4) i]
      C1_load_iff_length [OF ragged_env_fields i]
    by (simp add: la lb v z length_example_vec_bytes)
qed

section \<open>A load that fails\<close>

lemma ensureSimModel_v2_failed:
  assumes "\<not> simLoaded st" and "fst (ensureSimModel_v2 env st) = Thrown e"
  shows "\<not> simLoaded (snd (ensureSimModel_v2 env st))
    \<and> (vocab_json env = None \<longrightarrow>
          wordToIndex (snd (ensureSimModel_v2 env st)) = wordToIndex st
          \<and> vecData (snd (ensureSimModel_v2 env st)) = vecData st)
    \<and> (\<forall>v. vocab_json env = Some v \<longrightarrow>
          wordToIndex (snd (ensureSimModel_v2 env st)) = index_map v)
    \<and> ((\<forall>g x. e \<noteq> SizeMismatch g x) \<longrightarrow>
          vecData (snd (ensureSimModel_v2 env st)) = vecData st)
    \<and> (\<forall>g x. e = SizeMismatch g x \<longrightarrow>
          (\<exists>buf. vec_bin env = Some buf
             \<and> vecData (snd (ensureSimModel_v2 env st)) = Some (float32_elements buf)))"
proof (cases "vocab_json env")
  case None
  then show ?thesis
    using assms by (auto simp: ensureSimModel_v2_def Let_def fetch_def setStatus_def)
next
  case (Some v)
  note v = this
  show ?thesis
  proof (cases "vec_bin env")
    case None
    then show ?thesis
      using assms v by (auto simp: ensureSimModel_v2_def Let_def fetch_def setStatus_def)
  next
    case (Some buf)
    show ?thesis
    proof (cases "length buf mod 4 = 0")
      case True
      show ?thesis
        using assms v Some
        by (auto simp: ensureSimModel_v2_fetched [OF v Some True assms(1)] split: if_splits)
    next
      case False
      then show ?thesis
        using assms v Some
        by (auto simp: ensureSimModel_v2_def new_Float32Array_def Let_def fetch_def setStatus_def)
    qed
  qed
qed

lemma ensureSimModelLoaded_v4_failed:
  assumes "\<not> simLoaded st" and "fst (ensureSimModelLoaded_v4 env st) = Thrown e"
  shows "\<not> simLoaded (snd (ensureSimModelLoaded_v4 env st))
    \<and> (vocab_json env = None \<longrightarrow>
          wordToIndex (snd (ensureSimModelLoaded_v4 env st)) = wordToIndex st
          \<and> vecData (snd (ensureSimModelLoaded_v4 env st)) = vecData st)
    \<and> (\<forall>v. vocab_json env = Some v \<longrightarrow>
          wordToIndex (snd (ensureSimModelLoaded_v4 env st)) = index_map v)
    \<and> ((\<forall>g x. e \<noteq> SizeMismatch g x) \<longrightarrow>
          vecData (snd (ensureSimModelLoaded_v4 env st)) = vecData st)
    \<and> (\<forall>g x. e = SizeMismatch g x \<longrightarrow>
          (\<exists>buf. vec_bin env = Some buf
             \<and> vecData (snd (ensureSimModelLoaded_v4 env st)) = Some (float32_elements buf)))"
proof (cases "vocab_json env")
  case None
  then show ?thesis
    using assms by (auto simp: ensureSimModelLoaded_v4_def Let_def fetch_def setStatus_def)
next
  case (Some v)
  note v = this
  show ?thesis
  proof (cases "vec_bin env")
    case None
    then show ?thesis
      using assms v by (auto simp: ensureSimModelLoaded_v4_def Let_def fetch_def setStatus_def)
  next
    case (Some buf)
    show ?thesis
    proof (cases "length buf mod 4 = 0")
      case True
      show ?thesis
        using assms v Some
        by (auto simp: ensureSimModelLoaded_v4_fetched [OF v Some True assms(1)] split: if_splits)
    next
      case False
      then show ?thesis
        using assms v Some
        by (auto simp: ensureSimModelLoaded_v4_def new_Float32Array_def Let_def fetch_def
            setStatus_def)
    qed
  qed
qed

lemma index_map_example:
  "index_map example_vocab NEKO = Some 0"
  "index_map example_vocab INU = Some 1"
  "index_map example_vocab TORI = Some 2"
  by (simp_all add: index_map_def example_vocab_def NEKO_def INU_def TORI_def)

lemma mismatch_throws:
  "ensureSimModel_v2 mismatch_env initial_state =
     (Thrown (SizeMismatch 3 150),
      initial_state\<lparr>status := StLoadingSim, fetched := [VOCAB_JSON, VEC_BIN],
        wordToIndex := index_map example_vocab, vecData := Some [Fin 0, Fin 0, Fin 0]\<rparr>)"
  "ensureSimModelLoaded_v4 mismatch_env initial_state =
     (Thrown (SizeMismatch 3 150),
      initial_state\<lparr>status := StLoadingSim, fetched := [VOCAB_JSON, VEC_BIN],
        vocab := example_vocab, wordToIndex := index_map example_vocab,
        vecData := Some [Fin 0, Fin 0, Fin 0]\<rparr>)"
proof -
  have i: "\<not> simLoaded initial_state"
    by (simp add: initial_state_def)
  have b: "length (F32_ZERO @ F32_ZERO @ F32_ZERO) mod 4 = 0"
    by (simp add: F32_ZERO_def)
  have f: "fetched initial_state = []"
    by (simp add: initial_state_def)
  show "ensureSimModel_v2 mismatch_env initial_state =
     (Thrown (SizeMismatch 3 150),
      initial_state\<lparr>status := StLoadingSim, fetched := [VOCAB_JSON, VEC_BIN],
        wordToIndex := index_map example_vocab, vecData := Some [Fin 0, Fin 0, Fin 0]\<rparr>)"
    by (simp add: ensureSimModel_v2_fetched [OF example_env_fields(3,4) b i]
        float32_elements_mismatch SIM_D_def f) (simp add: example_vocab_def)
  show "ensureSimModelLoaded_v4 mismatch_env initial_state =
     (Thrown (SizeMismatch 3 150),
      initial_state\<lparr>status := StLoadingSim, fetched := [VOCAB_JSON, VEC_BIN],
        vocab := example_vocab, wordToIndex := index_map example_vocab,
        vecData := Some [Fin 0, Fin 0, Fin 0]\<rparr>)"
    by (simp add: ensureSimModelLoaded_v4_fetched [OF example_env_fields(3,4) b i]
        float32_elements_mismatch SIM_D_def f) (simp add: example_vocab_def)
qed

text \<open>
  Claim C5 as the specification states it fails: a load that fails on the length of the
  buffer has already replaced the word index and the vector buffer. From the initial
  state, with a vocabulary of three words and a buffer of three elements, the load
  throws, and afterwards the word index knows the first word and the buffer is the fetched
  one.
\<close>

theorem C5_partial_state_counterexample:
  "fst (ensureSimModel_v2 mismatch_env initial_state) = Thrown (SizeMismatch 3 150)
   \<and> wordToIndex initial_state NEKO = None
   \<and> wordToIndex (snd (ensureSimModel_v2 mismatch_env initial_state)) NEKO = Some 0
   \<and> vecData initial_state = None
   \<and> vecData (snd (ensureSimModel_v2 mismatch_env initial_state)) = Some [Fin 0, Fin 0, Fin 0]"
  by (simp add: mismatch_throws index_map_example) (simp add: initial_state_def)

text \<open>
  Claim C5, amended. Let the model be not loaded. When \<open>ensureSimModel\<close> (variant 2) or
  \<open>ensureSimModelLoaded\<close> (variant 4) throws, the flag is still false, and the next call
  starts over: with assets that match it fetches both again, installs the index and the
  buffer of what it fetched, whatever the failed load left, and sets the flag. What the
  failed load leaves: nothing new when the vocabulary could not be fetched; else the word
  index of the fetched vocabulary; the vector buffer is unchanged unless the failure is the
  length mismatch, and then it is the fetched buffer.
\<close>

theorem C5_failed_load:
  assumes "\<not> simLoaded st"
    and "vocab_json env2 = Some v2" and "vec_bin env2 = Some buf2"
    and "length buf2 = 4 * (length v2 * 50)"
  shows "(\<forall>e. fst (ensureSimModel_v2 env st) = Thrown e \<longrightarrow>
      (\<not> simLoaded (snd (ensureSimModel_v2 env st))
       \<and> (vocab_json env = None \<longrightarrow>
             wordToIndex (snd (ensureSimModel_v2 env st)) = wordToIndex st
             \<and> vecData (snd (ensureSimModel_v2 env st)) = vecData st)
       \<and> (\<forall>v. vocab_json env = Some v \<longrightarrow>
             wordToIndex (snd (ensureSimModel_v2 env st)) = index_map v)
       \<and> ((\<forall>g x. e \<noteq> SizeMismatch g x) \<longrightarrow>
             vecData (snd (ensureSimModel_v2 env st)) = vecData st)
       \<and> (\<forall>g x. e = SizeMismatch g x \<longrightarrow>
             (\<exists>buf. vec_bin env = Some buf
                \<and> vecData (snd (ensureSimModel_v2 env st)) = Some (float32_elements buf)))
       \<and> ensureSimModel_v2 env2 (snd (ensureSimModel_v2 env st)) =
           (Returned, (snd (ensureSimModel_v2 env st))
              \<lparr>status := StLoadingSim,
               fetched := fetched (snd (ensureSimModel_v2 env st)) @ [VOCAB_JSON, VEC_BIN],
               wordToIndex := index_map v2, vecData := Some (float32_elements buf2),
               simLoaded := True\<rparr>)))
    \<and> (\<forall>e. fst (ensureSimModelLoaded_v4 env st) = Thrown e \<longrightarrow>
      (\<not> simLoaded (snd (ensureSimModelLoaded_v4 env st))
       \<and> (vocab_json env = None \<longrightarrow>
             wordToIndex (snd (ensureSimModelLoaded_v4 env st)) = wordToIndex st
             \<and> vecData (snd (ensureSimModelLoaded_v4 env st)) = vecData st)
       \<and> (\<forall>v. vocab_json env = Some v \<longrightarrow>
             wordToIndex (snd (ensureSimModelLoaded_v4 env st)) = index_map v)
       \<and> ((\<forall>g x. e \<noteq> SizeMismatch g x) \<longrightarrow>
             vecData (snd (ensureSimModelLoaded_v4 env st)) = vecData st)
       \<and> (\<forall>g x. e = SizeMismatch g x \<longrightarrow>
             (\<exists>buf. vec_bin env = Some buf
                \<and> vecData (snd (ensureSimModelLoaded_v4 env st)) = Some (float32_elements buf)))
       \<and> ensureSimModelLoaded_v4 env2 (snd (ensureSimModelLoaded_v4 env st)) =
           (Returned, (snd (ensureSimModelLoaded_v4 env st))
              \<lparr>status := StReadySim,
               fetched := fetched (snd (ensureSimModelLoaded_v4 env st)) @ [VOCAB_JSON, VEC_BIN],
               vocab := v2, wordToIndex := index_map v2,
               vecData := Some (float32_elements buf2), simLoaded := True\<rparr>)))"
proof -
  have m: "length buf2 mod 4 = 0" and l: "length (float32_elements buf2) = length v2 * SIM_D"
    using assms(4) by (simp_all add: length_float32_elements SIM_D_def)
  have r2: "ensureSimModel_v2 env2 s =
      (Returned, s\<lparr>status := StLoadingSim, fetched := fetched s @ [VOCAB_JSON, VEC_BIN],
         wordToIndex := index_map v2, vecData := Some (float32_elements buf2),
         simLoaded := True\<rparr>)" if "\<not> simLoaded s" for s
    by (simp add: ensureSimModel_v2_fetched [OF assms(2,3) m that] l)
  have r4: "ensureSimModelLoaded_v4 env2 s =
      (Returned, s\<lparr>status := StReadySim, fetched := fetched s @ [VOCAB_JSON, VEC_BIN],
         vocab := v2, wordToIndex := index_map v2, vecData := Some (float32_elements buf2),
         simLoaded := True\<rparr>)" if "\<not> simLoaded s" for s
    by (simp add: ensureSimModelLoaded_v4_fetched [OF assms(2,3) m that] l)
  show ?thesis
  proof (rule conjI; intro allI impI)
    fix e assume "fst (ensureSimModel_v2 env st) = Thrown e"
    note f = ensureSimModel_v2_failed [OF assms(1) this]
    have n: "\<not> simLoaded (snd (ensureSimModel_v2 env st))"
      using f by (rule conjunct1)
    show "\<not> simLoaded (snd (ensureSimModel_v2 env st))
       \<and> (vocab_json env = None \<longrightarrow>
             wordToIndex (snd (ensureSimModel_v2 env st)) = wordToIndex st
             \<and> vecData (snd (ensureSimModel_v2 env st)) = vecData st)
       \<and> (\<forall>v. vocab_json env = Some v \<longrightarrow>
             wordToIndex (snd (ensureSimModel_v2 env st)) = index_map v)
       \<and> ((\<forall>g x. e \<noteq> SizeMismatch g x) \<longrightarrow>
             vecData (snd (ensureSimModel_v2 env st)) = vecData st)
       \<and> (\<forall>g x. e = SizeMismatch g x \<longrightarrow>
             (\<exists>buf. vec_bin env = Some buf
                \<and> vecData (snd (ensureSimModel_v2 env st)) = Some (float32_elements buf)))
       \<and> ensureSimModel_v2 env2 (snd (ensureSimModel_v2 env st)) =
           (Returned, (snd (ensureSimModel_v2 env st))
              \<lparr>status := StLoadingSim,
               fetched := fetched (snd (ensureSimModel_v2 env st)) @ [VOCAB_JSON, VEC_BIN],
               wordToIndex := index_map v2, vecData := Some (float32_elements buf2),
               simLoaded := True\<rparr>)"
      using f r2 [OF n] by (elim conjE) (intro conjI; assumption)
  next
    fix e assume "fst (ensureSimModelLoaded_v4 env st) = Thrown e"
    note f = ensureSimModelLoaded_v4_failed [OF assms(1) this]
    have n: "\<not> simLoaded (snd (ensureSimModelLoaded_v4 env st))"
      using f by (rule conjunct1)
    show "\<not> simLoaded (snd (ensureSimModelLoaded_v4 env st))
       \<and> (vocab_json env = None \<longrightarrow>
             wordToIndex (snd (ensureSimModelLoaded_v4 env st)) = wordToIndex st
             \<and> vecData (snd (ensureSimModelLoaded_v4 env st)) = vecData st)
       \<and> (\<forall>v. vocab_json env = Some v \<longrightarrow>
             wordToIndex (snd (ensureSimModelLoaded_v4 env st)) = index_map v)
       \<and> ((\<forall>g x. e \<noteq> SizeMismatch g x) \<longrightarrow>
             vecData (snd (ensureSimModelLoaded_v4 env st)) = vecData st)
       \<and> (\<forall>g x. e = SizeMismatch g x \<longrightarrow>
             (\<exists>buf. vec_bin env = Some buf
                \<and> vecData (snd (ensureSimModelLoaded_v4 env st)) = Some (float32_elements buf)))
       \<and> ensureSimModelLoaded_v4 env2 (snd (ensureSimModelLoaded_v4 env st)) =
           (Returned, (snd (ensureSimModelLoaded_v4 env st))
              \<lparr>status := StReadySim,
               fetched := fetched (snd (ensureSimModelLoaded_v4 env st)) @ [VOCAB_JSON, VEC_BIN],
               vocab := v2, wordToIndex := index_map v2,
               vecData := Some (float32_elements buf2), simLoaded := True\<rparr>)"
      using f r4 [OF n] by (elim conjE) (intro conjI; assumption)
  qed
qed

theorem C5_failed_load_witness:
  "fst (ensureSimModel_v2 mismatch_env initial_state) = Thrown (SizeMismatch 3 150)
   \<and> \<not> simLoaded (snd (ensureSimModel_v2 mismatch_env initial_state))
   \<and> wordToIndex (snd (ensureSimModel_v2 mismatch_env initial_state)) = index_map example_vocab
   \<and> fst (ensureSimModel_v2 example_env (snd (ensureSimModel_v2 mismatch_env initial_state)))
       = Returned
   \<and> simLoaded (snd (ensureSimModel_v2 example_env
          (snd (ensureSimModel_v2 mismatch_env initial_state))))
   \<and> vecData (snd (ensureSimModel_v2 example_env
          (snd (ensureSimModel_v2 mismatch_env initial_state)))) = Some example_vectors
   \<and> fst (ensureSimModelLoaded_v4 mismatch_env initial_state) = Thrown (SizeMismatch 3 150)
   \<and> \<not> simLoaded (snd (ensureSimModelLoaded_v4 mismatch_env initial_state))
   \<and> fst (ensureSimModelLoaded_v4 example_env
          (snd (ensureSimModelLoaded_v4 mismatch_env initial_state))) = Returned
   \<and> simLoaded (snd (ensureSimModelLoaded_v4 example_env
          (snd (ensureSimModelLoaded_v4 mismatch_env initial_state))))"
proof -
  have i: "\<not> simLoaded initial_state"
    by (simp add: initial_state_def)
  have l: "length example_vec_bytes = 4 * (length example_vocab * 50)"
    by (simp add: length_example_vec_bytes example_vocab_def)
  note t = C5_failed_load [OF i example_env_fields(1,2) l, of mismatch_env]
  have t2: "fst (ensureSimModel_v2 mismatch_env initial_state) = Thrown (SizeMismatch 3 150)"
    and t4: "fst (ensureSimModelLoaded_v4 mismatch_env initial_state)
      = Thrown (SizeMismatch 3 150)"
    by (simp_all add: mismatch_throws)
  note a = t [THEN conjunct1, THEN spec, THEN mp, OF t2]
  note b = t [THEN conjunct2, THEN spec, THEN mp, OF t4]
  show ?thesis
    using a b t2 t4
    by (simp add: example_env_fields float32_elements_example)
qed

section \<open>The readiness flags\<close>

lemma flags_kept_refl: "flags_kept st st"
  by (simp add: flags_kept_def)

lemma flags_kept_trans: "flags_kept a b \<Longrightarrow> flags_kept b c \<Longrightarrow> flags_kept a c"
  by (simp add: flags_kept_def)

lemma seq_kept:
  assumes "flags_kept st (snd r)" and "\<And>s. flags_kept s (snd (f s))"
  shows "flags_kept st (snd (seq r f))"
proof (cases r)
  case (Pair oc s)
  show ?thesis
  proof (cases oc)
    case Returned
    have "flags_kept s (snd (f s))" by (rule assms(2))
    with assms(1) Pair Returned show ?thesis
      by (simp add: seq_def) (rule flags_kept_trans)
  next
    case (Thrown e)
    with assms(1) Pair show ?thesis by (simp add: seq_def)
  next
    case Pending
    with assms(1) Pair show ?thesis by (simp add: seq_def)
  qed
qed

lemma try_catch_finally_kept:
  assumes "flags_kept st (snd r)" and "\<And>e s. flags_kept s (handler e s)"
    and "\<And>s. flags_kept s (fin s)"
  shows "flags_kept st (snd (try_catch_finally r handler fin))"
proof (cases r)
  case (Pair oc s)
  show ?thesis
  proof (cases oc)
    case Returned
    have "flags_kept s (fin s)" by (rule assms(3))
    with assms(1) Pair Returned show ?thesis
      by (simp add: try_catch_finally_def) (rule flags_kept_trans)
  next
    case (Thrown e)
    have "flags_kept s (fin (handler e s))"
      using assms(2) assms(3) by (rule flags_kept_trans)
    with assms(1) Pair Thrown show ?thesis
      by (simp add: try_catch_finally_def) (rule flags_kept_trans)
  next
    case Pending
    with assms(1) Pair show ?thesis by (simp add: try_catch_finally_def)
  qed
qed

lemma loadScriptOnce_kept: "flags_kept st (snd (loadScriptOnce src env st))"
  by (simp add: flags_kept_def loadScriptOnce_def Let_def)

lemma ensureCoords_kept: "flags_kept st (snd (ensureCoords env st))"
  by (simp add: flags_kept_def ensureCoords_def Let_def fetch_def setStatus_def
      split: option.splits)

lemma ensureSimModel_v2_kept: "flags_kept st (snd (ensureSimModel_v2 env st))"
  by (simp add: flags_kept_def ensureSimModel_v2_def Let_def fetch_def setStatus_def
      split: option.splits sum.splits)

lemma ensureLibsAndTokenizer_v2_kept:
  "flags_kept st (snd (ensureLibsAndTokenizer_v2 env st))"
proof (cases "tokenizer st \<noteq> None")
  case True
  then show ?thesis
    by (simp add: ensureLibsAndTokenizer_v2_def flags_kept_refl)
next
  case False
  have a: "flags_kept st (setStatus StLoadingLibs st)"
    by (simp add: flags_kept_def setStatus_def)
  have b: "flags_kept s
      (snd (let st3 = setStatus StPreparingTokenizer s in
           if KUROMOJI_URL \<notin> libs st3 then (Thrown TypeError, st3)
           else (case tokenizer_build env of
               Built tk \<Rightarrow> (Returned, setStatus StReady (st3\<lparr>tokenizer := Some tk\<rparr>))
             | BuildError \<Rightarrow> (Thrown TokenizerBuildFailed, st3)
             | BuildSilent \<Rightarrow> (Pending, st3))))" for s
    by (simp add: flags_kept_def setStatus_def Let_def split: build_result.splits)
  have "flags_kept st (snd (seq (loadScriptOnce PLOTLY_URL env (setStatus StLoadingLibs st))
      (\<lambda>st1. seq (loadScriptOnce KUROMOJI_URL env st1) (\<lambda>st2.
          (let st3 = setStatus StPreparingTokenizer st2 in
           if KUROMOJI_URL \<notin> libs st3 then (Thrown TypeError, st3)
           else (case tokenizer_build env of
               Built tk \<Rightarrow> (Returned, setStatus StReady (st3\<lparr>tokenizer := Some tk\<rparr>))
             | BuildError \<Rightarrow> (Thrown TokenizerBuildFailed, st3)
             | BuildSilent \<Rightarrow> (Pending, st3)))))))"
    by (intro seq_kept flags_kept_trans [OF a loadScriptOnce_kept] loadScriptOnce_kept b)
  with False show ?thesis
    by (simp add: ensureLibsAndTokenizer_v2_def)
qed

lemma renderPlot_v2_kept: "flags_kept st (snd (renderPlot_v2 words xy st))"
  by (simp add: flags_kept_def renderPlot_v2_def)

lemma fold_simList:
  "fold (\<lambda>c s. s\<lparr>simList := simList s @ [c]\<rparr>) cs st = st\<lparr>simList := simList st @ cs\<rparr>"
  by (induction cs arbitrary: st) simp_all

lemma showSimilar_v2_kept: "flags_kept st (snd (showSimilar_v2 env word st))"
proof -
  have a: "flags_kept st (st\<lparr>selectedWord := word, simList := []\<rparr>)"
    by (simp add: flags_kept_def)
  have b: "flags_kept s (snd (case (case word of None \<Rightarrow> None | Some wd \<Rightarrow> wordToIndex s wd) of
         None \<Rightarrow> (Returned, s)
       | Some i \<Rightarrow>
          (case score_all_v2 s word i (currentWords s) of
             Inl e \<Rightarrow> (Thrown e, s)
           | Inr scored \<Rightarrow>
              (let sims = take 10 (js_sort by_score_desc scored)
               in (Returned, fold (\<lambda>c s. s\<lparr>simList := simList s @ [c]\<rparr>) sims s)))))" for s
    by (simp add: flags_kept_def fold_simList Let_def split: option.splits sum.splits)
  show ?thesis
    unfolding showSimilar_v2_def
    by (intro seq_kept flags_kept_trans [OF a ensureSimModel_v2_kept] b)
qed

lemma run_try_v2_kept:
  "flags_kept st (snd (run_try_v2 env txt posFilter uniqueOnly st))"
proof -
  have c: "flags_kept s (snd (case keep_loop s ws [] [] of
                (kept, xy) \<Rightarrow>
                  if length kept < 2 then (Returned, setStatus StTooFewWords s)
                  else renderPlot_v2 kept xy
                         (setStatus (StDone (length kept)) (s\<lparr>currentWords := kept\<rparr>))))" for s ws
    by (simp add: flags_kept_def setStatus_def renderPlot_v2_def split: prod.splits)
  have b: "flags_kept s (snd (let st2 = setStatus StTokenizing s in
        case tokenizer st2 of
          None \<Rightarrow> (Thrown TypeError, st2)
        | Some tk \<Rightarrow>
           (let words = run_words posFilter uniqueOnly (tk txt) in
            seq (ensureCoords env st2) (\<lambda>st3.
              case keep_loop st3 words [] [] of
                (kept, xy) \<Rightarrow>
                  if length kept < 2 then (Returned, setStatus StTooFewWords st3)
                  else renderPlot_v2 kept xy
                         (setStatus (StDone (length kept)) (st3\<lparr>currentWords := kept\<rparr>))))))" for s
  proof (cases "tokenizer s")
    case None
    then show ?thesis
      by (simp add: flags_kept_def setStatus_def)
  next
    case (Some tk)
    have t: "flags_kept s (setStatus StTokenizing s)"
      by (simp add: flags_kept_def setStatus_def)
    have "flags_kept s (snd (seq (ensureCoords env (setStatus StTokenizing s)) (\<lambda>st3.
              case keep_loop st3 (run_words posFilter uniqueOnly (tk txt)) [] [] of
                (kept, xy) \<Rightarrow>
                  if length kept < 2 then (Returned, setStatus StTooFewWords st3)
                  else renderPlot_v2 kept xy
                         (setStatus (StDone (length kept)) (st3\<lparr>currentWords := kept\<rparr>)))))"
      by (intro seq_kept flags_kept_trans [OF t ensureCoords_kept] c)
    with Some show ?thesis
      by (simp add: Let_def setStatus_def)
  qed
  show ?thesis
    unfolding run_try_v2_def
    by (intro seq_kept ensureLibsAndTokenizer_v2_kept b)
qed

lemma run_v2_kept: "flags_kept st (snd (run_v2 env input posFilter uniqueOnly st))"
proof (cases "trim input = []")
  case True
  then show ?thesis
    by (simp add: run_v2_def flags_kept_def)
next
  case False
  have a: "flags_kept st (st\<lparr>runDisabled := True\<rparr>)"
    by (simp add: flags_kept_def)
  have "flags_kept st (snd (try_catch_finally
             (run_try_v2 env (trim input) posFilter uniqueOnly (st\<lparr>runDisabled := True\<rparr>))
             (\<lambda>e s. setStatus StError
                (s\<lparr>console := console s @ [e], alerts := alerts s @ [AlertError]\<rparr>))
             (\<lambda>s. s\<lparr>runDisabled := False\<rparr>)))"
    by (intro try_catch_finally_kept flags_kept_trans [OF a run_try_v2_kept])
      (simp_all add: flags_kept_def setStatus_def)
  with False show ?thesis
    by (simp add: run_v2_def Let_def)
qed

lemma handle_v2_kept: "flags_kept st (handle_v2 env ev st)"
proof (cases ev)
  case (RunClick input posFilter uniqueOnly)
  then show ?thesis
    by (simp add: run_v2_kept flags_kept_refl)
next
  case (PlotClick idx)
  then show ?thesis
    by (simp add: showSimilar_v2_kept flags_kept_refl split: option.splits prod.splits)
qed

lemma session_v2_kept: "flags_kept st (session_v2 evs st)"
proof (induction evs arbitrary: st)
  case Nil
  then show ?case by (simp add: flags_kept_refl)
next
  case (Cons a evs)
  obtain env ev where a: "a = (env, ev)" by (cases a)
  show ?case
    unfolding a session_v2.simps
    by (rule flags_kept_trans [OF handle_v2_kept Cons.IH])
qed

text \<open>
  Claim C6 (variant 2). A call of \<open>ensureCoords\<close>, \<open>ensureSimModel\<close> or
  \<open>ensureLibsAndTokenizer\<close> whose flag is set returns with the state as it was: no
  request is added to the log of \<open>fetch\<close> and nothing else changes. And through any
  sequence of clicks on the run button and on points of the plot, whatever the network
  answers to each, a flag that is set stays set.
\<close>

theorem C6_flags_kept_and_idempotent:
  "(coordsLoaded st \<longrightarrow>
      ensureCoords env st = (Returned, st) \<and> coordsLoaded (session_v2 evs st))
   \<and> (simLoaded st \<longrightarrow>
      ensureSimModel_v2 env st = (Returned, st) \<and> simLoaded (session_v2 evs st))
   \<and> (tokenizer st \<noteq> None \<longrightarrow>
      ensureLibsAndTokenizer_v2 env st = (Returned, st) \<and> tokenizer (session_v2 evs st) \<noteq> None)"
  using session_v2_kept [of st evs]
  by (simp add: flags_kept_def ensureCoords_def ensureSimModel_v2_def
      ensureLibsAndTokenizer_v2_def)

theorem C6_flags_kept_and_idempotent_witness:
  "coordsLoaded example_ready \<and> simLoaded example_ready \<and> tokenizer example_ready \<noteq> None
   \<and> ensureCoords mismatch_env example_ready = (Returned, example_ready)
   \<and> ensureSimModel_v2 mismatch_env example_ready = (Returned, example_ready)
   \<and> ensureLibsAndTokenizer_v2 mismatch_env example_ready = (Returned, example_ready)
   \<and> fetched (snd (ensureSimModel_v2 mismatch_env example_ready)) = []
   \<and> coordsLoaded (session_v2 [(mismatch_env, RunClick (NEKO @ INU) True True),
        (mismatch_env, PlotClick 0)] example_ready)
   \<and> simLoaded (session_v2 [(mismatch_env, RunClick (NEKO @ INU) True True),
        (mismatch_env, PlotClick 0)] example_ready)
   \<and> tokenizer (session_v2 [(mismatch_env, RunClick (NEKO @ INU) True True),
        (mismatch_env, PlotClick 0)] example_ready) \<noteq> None"
proof -
  have f: "coordsLoaded example_ready" "simLoaded example_ready"
    "tokenizer example_ready \<noteq> None" "fetched example_ready = []"
    by (simp_all add: example_ready_def example_model_def initial_state_def)
  show ?thesis
    using C6_flags_kept_and_idempotent [of example_ready mismatch_env
        "[(mismatch_env, RunClick (NEKO @ INU) True True), (mismatch_env, PlotClick 0)]"]
    by (simp add: f)
qed

section \<open>The run\<close>

lemma keep_loop_v1_eq:
  "keep_loop_v1 st ws kept xy =
     (kept @ filter (\<lambda>w. coordMap st w \<noteq> None \<and> wordToIndex st w \<noteq> None) ws,
      xy @ map (\<lambda>w. the (coordMap st w))
             (filter (\<lambda>w. coordMap st w \<noteq> None \<and> wordToIndex st w \<noteq> None) ws))"
  by (induction ws arbitrary: kept xy) (auto split: option.splits)

lemma keep_loop_eq:
  "keep_loop st ws kept xy =
     (kept @ filter (\<lambda>w. coordMap st w \<noteq> None) ws,
      xy @ map (\<lambda>w. the (coordMap st w)) (filter (\<lambda>w. coordMap st w \<noteq> None) ws))"
  by (induction ws arbitrary: kept xy) (auto split: option.splits)

lemma showSimilar_v1_shape:
  "\<exists>oc l. showSimilar_v1 word st = (oc, st\<lparr>selectedWord := word, simList := l\<rparr>)"
proof -
  let ?st1 = "st\<lparr>selectedWord := word, simList := []\<rparr>"
  show ?thesis
  proof (cases "case word of None \<Rightarrow> None | Some wd \<Rightarrow> wordToIndex ?st1 wd")
    case None
    then have "showSimilar_v1 word st = (Returned, ?st1)"
      unfolding showSimilar_v1_def Let_def by (simp only: option.case)
    then show ?thesis by blast
  next
    case (Some idx)
    show ?thesis
    proof (cases "score_all_v1 ?st1 idx (filter (\<lambda>w. Some w \<noteq> word) (currentWords ?st1))")
      case (Inl e)
      then have "showSimilar_v1 word st = (Thrown e, ?st1)"
        unfolding showSimilar_v1_def Let_def Some by (simp only: option.case sum.case)
      then show ?thesis by blast
    next
      case (Inr scored)
      then have "showSimilar_v1 word st = (Returned,
          ?st1\<lparr>simList := simList ?st1
             @ take 10 (js_sort by_score_desc (List.map_filter (\<lambda>c. c) scored))\<rparr>)"
        unfolding showSimilar_v1_def Let_def Some fold_simList
        by (simp only: option.case sum.case)
      then have "showSimilar_v1 word st = (Returned,
          st\<lparr>selectedWord := word,
             simList := take 10 (js_sort by_score_desc (List.map_filter (\<lambda>c. c) scored))\<rparr>)"
        by simp
      then show ?thesis by blast
    qed
  qed
qed

lemma run_v1_few:
  assumes "trim input \<noteq> []" and "tokenizer st = Some tk"
    and "length (fst (keep_loop_v1 st (run_words posFilter uniqueOnly (tk (trim input))) [] [])) < 2"
  shows "run_v1 input posFilter uniqueOnly st =
     (Returned, st\<lparr>status := StTooFewWords, runDisabled := False\<rparr>)"
  using assms by (simp add: run_v1_def Let_def setStatus_def keep_loop_v1_eq)

lemma run_v1_plot:
  assumes "trim input \<noteq> []" and "tokenizer st = Some tk"
    and "kept = filter (\<lambda>w. coordMap st w \<noteq> None \<and> wordToIndex st w \<noteq> None)
           (run_words posFilter uniqueOnly (tk (trim input)))"
    and "2 \<le> length kept"
    and "st' = snd (run_v1 input posFilter uniqueOnly st)"
  shows "currentWords st' = kept \<and> currentXY st' = map (\<lambda>w. the (coordMap st w)) kept
       \<and> status st' = StDone (length kept) \<and> plot st' = Some (currentWords st', currentXY st')
       \<and> coordMap st' = coordMap st \<and> wordToIndex st' = wordToIndex st"
proof -
  let ?xy = "map (\<lambda>w. the (coordMap st w)) kept"
  let ?st3 = "renderPlot_v1 kept ?xy (setStatus (StDone (length kept))
      ((setStatus StTokenizing (st\<lparr>runDisabled := True\<rparr>))
         \<lparr>currentWords := kept, currentXY := ?xy\<rparr>))"
  obtain oc l where s: "showSimilar_v1 (nth_opt kept 0) ?st3
      = (oc, ?st3\<lparr>selectedWord := nth_opt kept 0, simList := l\<rparr>)"
    using showSimilar_v1_shape by blast
  have r: "run_v1 input posFilter uniqueOnly st =
      seq (showSimilar_v1 (nth_opt kept 0) ?st3)
        (\<lambda>st4. (Returned, st4\<lparr>runDisabled := False\<rparr>))"
    using assms(1-4)
    by (simp add: run_v1_def Let_def setStatus_def keep_loop_v1_eq renderPlot_v1_def)
  show ?thesis
    unfolding assms(5) r s
    by (cases oc) (simp_all add: seq_def setStatus_def renderPlot_v1_def)
qed

lemma run_v1_status:
  assumes "trim input \<noteq> []"
    and "status (snd (run_v1 input posFilter uniqueOnly st)) = StDone n"
  shows "\<exists>tk. tokenizer st = Some tk
    \<and> 2 \<le> length (filter (\<lambda>w. coordMap st w \<noteq> None \<and> wordToIndex st w \<noteq> None)
           (run_words posFilter uniqueOnly (tk (trim input))))"
proof (cases "tokenizer st")
  case None
  with assms show ?thesis
    by (simp add: run_v1_def Let_def setStatus_def)
next
  case (Some tk)
  show ?thesis
  proof (cases "length (fst (keep_loop_v1 st (run_words posFilter uniqueOnly (tk (trim input)))
      [] [])) < 2")
    case True
    show ?thesis
      using assms(2) unfolding run_v1_few [OF assms(1) Some True] by simp
  next
    case False
    with Some show ?thesis
      by (simp add: keep_loop_v1_eq)
  qed
qed

lemma loadScriptOnce_frame:
  assumes "loadScriptOnce src env st = (oc, st')"
  shows "currentWords st' = currentWords st \<and> plot st' = plot st
    \<and> alerts st' = alerts st \<and> console st' = console st \<and> wordToIndex st' = wordToIndex st
    \<and> oc \<noteq> Pending"
  using assms by (auto simp: loadScriptOnce_def Let_def split: if_splits)

lemma ensurePlotly_v3_frame:
  assumes "ensurePlotly_v3 env st = (oc, st')"
  shows "currentWords st' = currentWords st \<and> plot st' = plot st
    \<and> alerts st' = alerts st \<and> console st' = console st \<and> wordToIndex st' = wordToIndex st"
proof (cases "PLOTLY_URL \<in> libs st")
  case True
  with assms show ?thesis by (simp add: ensurePlotly_v3_def)
next
  case False
  with assms have "loadScriptOnce PLOTLY_URL env (setStatus StLoadingPlotLib st) = (oc, st')"
    by (simp add: ensurePlotly_v3_def)
  from loadScriptOnce_frame [OF this] show ?thesis
    by (simp add: setStatus_def)
qed

lemma ensureTokenizer_v3_frame:
  assumes "ensureTokenizer_v3 env st = (oc, st')"
  shows "currentWords st' = currentWords st \<and> plot st' = plot st
    \<and> alerts st' = alerts st \<and> console st' = console st \<and> wordToIndex st' = wordToIndex st"
proof (cases "tokenizer st \<noteq> None")
  case True
  with assms show ?thesis by (simp add: ensureTokenizer_v3_def)
next
  case False
  obtain o1 s1 where l: "loadScriptOnce KUROMOJI_URL env (setStatus StPreparingTokenizer st)
      = (o1, s1)"
    by (cases "loadScriptOnce KUROMOJI_URL env (setStatus StPreparingTokenizer st)")
  note f = loadScriptOnce_frame [OF l]
  have "st' = s1 \<or> (\<exists>tk. st' = s1\<lparr>tokenizer := Some tk\<rparr>)"
    using assms False l
    by (cases o1)
      (auto simp: ensureTokenizer_v3_def buildTokenizerWithTimeout_v3_def
        split: if_splits build_result.splits)
  with f show ?thesis
    by (auto simp: setStatus_def)
qed

lemma ensureCoords_frame:
  assumes "ensureCoords env st = (oc, st')"
  shows "currentWords st' = currentWords st \<and> plot st' = plot st
    \<and> alerts st' = alerts st \<and> console st' = console st \<and> wordToIndex st' = wordToIndex st"
  using assms
  by (auto simp: ensureCoords_def Let_def fetch_def setStatus_def split: if_splits option.splits)

lemma run_v3_reached:
  assumes "trim input \<noteq> []"
    and "ensurePlotly_v3 env (st\<lparr>runDisabled := True\<rparr>) = (Returned, st1)"
    and "ensureTokenizer_v3 env st1 = (Returned, st2)"
    and "ensureCoords env st2 = (Returned, st3)"
    and "tokenizer st3 = Some tk"
    and "kept = filter (\<lambda>w. coordMap st3 w \<noteq> None)
           (run_words posFilter uniqueOnly (tk (trim input)))"
  shows "run_v3 env input posFilter uniqueOnly st =
     (if length kept < 2 then (Returned, st3\<lparr>status := StTooFewWords, runDisabled := False\<rparr>)
      else try_catch_finally
         (renderPlot_v2 kept (map (\<lambda>w. the (coordMap st3 w)) kept)
            (st3\<lparr>currentWords := kept, status := StDone (length kept)\<rparr>))
         (\<lambda>e s. setStatus StError
            (s\<lparr>console := console s @ [e], alerts := alerts s @ [AlertErrorMessage e]\<rparr>))
         (\<lambda>s. s\<lparr>runDisabled := False\<rparr>))"
  using assms(1,5)
  by (simp add: run_v3_def run_try_v3_def assms(2,3,4) seq_def Let_def setStatus_def
      keep_loop_eq assms(6) try_catch_finally_def)

lemma run_v3_frame:
  assumes "ensurePlotly_v3 env (st\<lparr>runDisabled := True\<rparr>) = (Returned, st1)"
    and "ensureTokenizer_v3 env st1 = (Returned, st2)"
    and "ensureCoords env st2 = (Returned, st3)"
  shows "currentWords st3 = currentWords st \<and> plot st3 = plot st
    \<and> alerts st3 = alerts st \<and> console st3 = console st \<and> wordToIndex st3 = wordToIndex st"
  using ensurePlotly_v3_frame [OF assms(1)] ensureTokenizer_v3_frame [OF assms(2)]
    ensureCoords_frame [OF assms(3)]
  by simp

text \<open>
  Claim C8. Variant 1: when the text is not blank, the tokenizer is there and fewer than
  two words pass the filter, \<open>run\<close> returns, and the state is the one before but for the
  status line, which reports the condition, and the run button, which is enabled: the
  plotted words, their coordinates and the plot are as before. Variant 3: when the
  loading steps have returned and fewer than two words pass the filter, \<open>run\<close> returns,
  no error is logged and no alert raised, the status line reports the condition, the
  run button is enabled, and the plotted words and the plot are as before.
\<close>

theorem C8_too_few_words:
  "(trim input \<noteq> [] \<and> tokenizer st = Some tk
      \<and> length (fst (keep_loop_v1 st (run_words posFilter uniqueOnly (tk (trim input))) [] [])) < 2
    \<longrightarrow> run_v1 input posFilter uniqueOnly st
          = (Returned, st\<lparr>status := StTooFewWords, runDisabled := False\<rparr>))
   \<and> (trim input \<noteq> []
      \<and> ensurePlotly_v3 env (st\<lparr>runDisabled := True\<rparr>) = (Returned, st1)
      \<and> ensureTokenizer_v3 env st1 = (Returned, st2)
      \<and> ensureCoords env st2 = (Returned, st3)
      \<and> tokenizer st3 = Some tk3
      \<and> length (fst (keep_loop st3 (run_words posFilter uniqueOnly (tk3 (trim input))) [] [])) < 2
    \<longrightarrow> run_v3 env input posFilter uniqueOnly st
          = (Returned, st3\<lparr>status := StTooFewWords, runDisabled := False\<rparr>)
        \<and> currentWords st3 = currentWords st \<and> plot st3 = plot st
        \<and> alerts st3 = alerts st \<and> console st3 = console st)"
proof (intro conjI impI)
  assume "trim input \<noteq> [] \<and> tokenizer st = Some tk
      \<and> length (fst (keep_loop_v1 st (run_words posFilter uniqueOnly (tk (trim input))) [] [])) < 2"
  then have "trim input \<noteq> []" and "tokenizer st = Some tk"
    and "length (fst (keep_loop_v1 st (run_words posFilter uniqueOnly (tk (trim input))) [] [])) < 2"
    by blast+
  then show "run_v1 input posFilter uniqueOnly st
          = (Returned, st\<lparr>status := StTooFewWords, runDisabled := False\<rparr>)"
    by (rule run_v1_few)
next
  assume a: "trim input \<noteq> []
      \<and> ensurePlotly_v3 env (st\<lparr>runDisabled := True\<rparr>) = (Returned, st1)
      \<and> ensureTokenizer_v3 env st1 = (Returned, st2)
      \<and> ensureCoords env st2 = (Returned, st3)
      \<and> tokenizer st3 = Some tk3
      \<and> length (fst (keep_loop st3 (run_words posFilter uniqueOnly (tk3 (trim input))) [] [])) < 2"
  then have e: "ensurePlotly_v3 env (st\<lparr>runDisabled := True\<rparr>) = (Returned, st1)"
      "ensureTokenizer_v3 env st1 = (Returned, st2)" "ensureCoords env st2 = (Returned, st3)"
    and i: "trim input \<noteq> []" and t: "tokenizer st3 = Some tk3"
    and l: "length (filter (\<lambda>w. coordMap st3 w \<noteq> None)
           (run_words posFilter uniqueOnly (tk3 (trim input)))) < 2"
    by (simp_all add: keep_loop_eq)
  show "run_v3 env input posFilter uniqueOnly st
          = (Returned, st3\<lparr>status := StTooFewWords, runDisabled := False\<rparr>)"
    using l by (simp add: run_v3_reached [OF i e t refl])
  show "currentWords st3 = currentWords st" "plot st3 = plot st"
    "alerts st3 = alerts st" "console st3 = console st"
    using run_v3_frame [OF e] by simp_all
qed

lemma example_words:
  "run_words True True (example_tokenizer NEKO) = [NEKO]"
  "run_words True True (example_tokenizer (NEKO @ INU)) = [NEKO, INU]"
  "run_words True True (example_tokenizer (NEKO @ INU @ TORI @ NEKO)) = [NEKO, INU, TORI]"
  "run_words True False (example_tokenizer (NEKO @ INU @ TORI @ NEKO)) = [NEKO, INU, TORI, NEKO]"
  by (simp_all add: run_words_def tokenize_def example_tokenizer_def NEKO_def INU_def TORI_def
      isTargetPOS_def token_word_def trim_def js_space_def new_Set_def set_add_def)

lemma example_trim:
  "trim NEKO = NEKO" "trim (NEKO @ INU) = NEKO @ INU"
  "trim (NEKO @ INU @ TORI @ NEKO) = NEKO @ INU @ TORI @ NEKO"
  "NEKO \<noteq> []" "NEKO @ INU \<noteq> []" "NEKO @ INU @ TORI @ NEKO \<noteq> []"
  by (simp_all add: trim_def js_space_def NEKO_def INU_def TORI_def)

lemma example_ready_fields:
  "tokenizer example_ready = Some example_tokenizer"
  "coordMap example_ready = [NEKO \<mapsto> (Fin 1, Fin 2), INU \<mapsto> (Fin 3, Fin 4), TORI \<mapsto> (Fin 5, Fin 6)]"
  "wordToIndex example_ready = index_map example_vocab"
  "vecData example_ready = Some example_vectors"
  "currentWords example_ready = []"
  "simLoaded example_ready"
  by (simp_all add: example_ready_def example_model_def initial_state_def)

lemma example_plot_ready_fields:
  "tokenizer example_plot_ready = Some example_tokenizer"
  "coordMap example_plot_ready
     = [NEKO \<mapsto> (Fin 1, Fin 2), INU \<mapsto> (Fin 3, Fin 4), TORI \<mapsto> (Fin 5, Fin 6)]"
  "wordToIndex example_plot_ready = Map.empty"
  "coordsLoaded example_plot_ready"
  "PLOTLY_URL \<in> libs example_plot_ready"
  "currentWords example_plot_ready = []"
  by (simp_all add: example_plot_ready_def initial_state_def)

lemma example_plot_ready_ensures:
  "ensurePlotly_v3 env (example_plot_ready\<lparr>runDisabled := True\<rparr>)
     = (Returned, example_plot_ready\<lparr>runDisabled := True\<rparr>)"
  "ensureTokenizer_v3 env (example_plot_ready\<lparr>runDisabled := True\<rparr>)
     = (Returned, example_plot_ready\<lparr>runDisabled := True\<rparr>)"
  "ensureCoords env (example_plot_ready\<lparr>runDisabled := True\<rparr>)
     = (Returned, example_plot_ready\<lparr>runDisabled := True\<rparr>)"
  by (simp_all add: ensurePlotly_v3_def ensureTokenizer_v3_def ensureCoords_def
      example_plot_ready_fields)

lemma words_distinct: "NEKO \<noteq> INU" "NEKO \<noteq> TORI" "INU \<noteq> TORI"
  "INU \<noteq> NEKO" "TORI \<noteq> NEKO" "TORI \<noteq> INU"
  by (simp_all add: NEKO_def INU_def TORI_def)

theorem C8_too_few_words_witness:
  "run_v1 NEKO True True example_ready
     = (Returned, example_ready\<lparr>status := StTooFewWords, runDisabled := False\<rparr>)
   \<and> run_v3 mismatch_env NEKO True True example_plot_ready
     = (Returned, example_plot_ready\<lparr>runDisabled := True, status := StTooFewWords,
          runDisabled := False\<rparr>)
   \<and> currentWords (example_plot_ready\<lparr>runDisabled := True\<rparr>) = currentWords example_plot_ready"
proof -
  have a: "trim NEKO \<noteq> [] \<and> tokenizer example_ready = Some example_tokenizer
      \<and> length (fst (keep_loop_v1 example_ready
           (run_words True True (example_tokenizer (trim NEKO))) [] [])) < 2"
    by (simp add: example_trim example_words example_ready_fields)
  have b: "trim NEKO \<noteq> []
      \<and> ensurePlotly_v3 mismatch_env (example_plot_ready\<lparr>runDisabled := True\<rparr>)
          = (Returned, example_plot_ready\<lparr>runDisabled := True\<rparr>)
      \<and> ensureTokenizer_v3 mismatch_env (example_plot_ready\<lparr>runDisabled := True\<rparr>)
          = (Returned, example_plot_ready\<lparr>runDisabled := True\<rparr>)
      \<and> ensureCoords mismatch_env (example_plot_ready\<lparr>runDisabled := True\<rparr>)
          = (Returned, example_plot_ready\<lparr>runDisabled := True\<rparr>)
      \<and> tokenizer (example_plot_ready\<lparr>runDisabled := True\<rparr>) = Some example_tokenizer
      \<and> length (fst (keep_loop (example_plot_ready\<lparr>runDisabled := True\<rparr>)
           (run_words True True (example_tokenizer (trim NEKO))) [] [])) < 2"
    by (simp add: example_trim example_words example_plot_ready_fields
        example_plot_ready_ensures)
  note t1 = C8_too_few_words [where input = NEKO and st = example_ready
      and tk = example_tokenizer and posFilter = True and uniqueOnly = True,
      THEN conjunct1, THEN mp, OF a]
  note t3 = C8_too_few_words [where input = NEKO and st = example_plot_ready
      and posFilter = True and uniqueOnly = True and env = mismatch_env
      and ?st1.0 = "example_plot_ready\<lparr>runDisabled := True\<rparr>"
      and ?st2.0 = "example_plot_ready\<lparr>runDisabled := True\<rparr>"
      and ?st3.0 = "example_plot_ready\<lparr>runDisabled := True\<rparr>"
      and ?tk3.0 = example_tokenizer,
      THEN conjunct2, THEN mp, OF b]
  show ?thesis
    using t1 t3 by simp
qed

lemma renderPlot_v2_currentWords:
  "currentWords (snd (try_catch_finally (renderPlot_v2 kept xy s)
       (\<lambda>e s. setStatus StError
          (s\<lparr>console := console s @ [e], alerts := alerts s @ [AlertErrorMessage e]\<rparr>))
       (\<lambda>s. s\<lparr>runDisabled := False\<rparr>))) = currentWords s"
  by (simp add: renderPlot_v2_def try_catch_finally_def setStatus_def)

text \<open>
  Claim C2 as the specification states it fails in the variants that load the vocabulary
  on the first click: their filter does not ask for an index. In a state where the
  coordinates are loaded and the vocabulary is not, a run of variant 3 on a text of two
  words plots both, and neither is in the word index.
\<close>

theorem C2_plotted_without_index_counterexample:
  "fst (run_v3 mismatch_env (NEKO @ INU) True True example_plot_ready) = Returned
   \<and> currentWords (snd (run_v3 mismatch_env (NEKO @ INU) True True example_plot_ready))
       = [NEKO, INU]
   \<and> wordToIndex (snd (run_v3 mismatch_env (NEKO @ INU) True True example_plot_ready)) NEKO
       = None"
proof -
  have i: "trim (NEKO @ INU) \<noteq> []"
    by (simp add: example_trim)
  have t: "tokenizer (example_plot_ready\<lparr>runDisabled := True\<rparr>) = Some example_tokenizer"
    by (simp add: example_plot_ready_fields)
  show ?thesis
    by (simp add: run_v3_reached [OF i example_plot_ready_ensures t refl]
        example_trim example_words example_plot_ready_fields words_distinct
        renderPlot_v2_def try_catch_finally_def)
qed

text \<open>
  Claim C2, amended. The filter of variant 1 keeps exactly the words that are in both the
  coordinate table and the word index; the filter of variants 2 to 4, which run before the
  vocabulary is loaded, keeps exactly the words that are in the coordinate table. When at
  least two words are kept, they are the plotted words after the run: of variant 1, when
  the text is not blank and the tokenizer is there; of variant 3, when its loading steps
  have returned.
\<close>

theorem C2_filter_keeps:
  "fst (keep_loop_v1 st ws [] [])
     = filter (\<lambda>w. coordMap st w \<noteq> None \<and> wordToIndex st w \<noteq> None) ws
   \<and> fst (keep_loop st ws [] []) = filter (\<lambda>w. coordMap st w \<noteq> None) ws
   \<and> (trim input \<noteq> [] \<and> tokenizer st = Some tk
        \<and> 2 \<le> length (fst (keep_loop_v1 st
               (run_words posFilter uniqueOnly (tk (trim input))) [] []))
      \<longrightarrow> currentWords (snd (run_v1 input posFilter uniqueOnly st))
           = filter (\<lambda>w. coordMap st w \<noteq> None \<and> wordToIndex st w \<noteq> None)
               (run_words posFilter uniqueOnly (tk (trim input))))
   \<and> (trim input \<noteq> []
        \<and> ensurePlotly_v3 env (st\<lparr>runDisabled := True\<rparr>) = (Returned, st1)
        \<and> ensureTokenizer_v3 env st1 = (Returned, st2)
        \<and> ensureCoords env st2 = (Returned, st3)
        \<and> tokenizer st3 = Some tk3
        \<and> 2 \<le> length (fst (keep_loop st3
               (run_words posFilter uniqueOnly (tk3 (trim input))) [] []))
      \<longrightarrow> currentWords (snd (run_v3 env input posFilter uniqueOnly st))
           = filter (\<lambda>w. coordMap st3 w \<noteq> None)
               (run_words posFilter uniqueOnly (tk3 (trim input))))"
proof (intro conjI impI)
  show "fst (keep_loop_v1 st ws [] [])
     = filter (\<lambda>w. coordMap st w \<noteq> None \<and> wordToIndex st w \<noteq> None) ws"
    by (simp add: keep_loop_v1_eq)
  show "fst (keep_loop st ws [] []) = filter (\<lambda>w. coordMap st w \<noteq> None) ws"
    by (simp add: keep_loop_eq)
next
  assume "trim input \<noteq> [] \<and> tokenizer st = Some tk
        \<and> 2 \<le> length (fst (keep_loop_v1 st
               (run_words posFilter uniqueOnly (tk (trim input))) [] []))"
  then have i: "trim input \<noteq> []" and t: "tokenizer st = Some tk"
    and l: "2 \<le> length (filter (\<lambda>w. coordMap st w \<noteq> None \<and> wordToIndex st w \<noteq> None)
               (run_words posFilter uniqueOnly (tk (trim input))))"
    by (simp_all add: keep_loop_v1_eq)
  from run_v1_plot [OF i t refl l refl]
  show "currentWords (snd (run_v1 input posFilter uniqueOnly st))
           = filter (\<lambda>w. coordMap st w \<noteq> None \<and> wordToIndex st w \<noteq> None)
               (run_words posFilter uniqueOnly (tk (trim input)))"
    by (rule conjunct1)
next
  assume "trim input \<noteq> []
        \<and> ensurePlotly_v3 env (st\<lparr>runDisabled := True\<rparr>) = (Returned, st1)
        \<and> ensureTokenizer_v3 env st1 = (Returned, st2)
        \<and> ensureCoords env st2 = (Returned, st3)
        \<and> tokenizer st3 = Some tk3
        \<and> 2 \<le> length (fst (keep_loop st3
               (run_words posFilter uniqueOnly (tk3 (trim input))) [] []))"
  then have e: "ensurePlotly_v3 env (st\<lparr>runDisabled := True\<rparr>) = (Returned, st1)"
      "ensureTokenizer_v3 env st1 = (Returned, st2)" "ensureCoords env st2 = (Returned, st3)"
    and i: "trim input \<noteq> []" and t: "tokenizer st3 = Some tk3"
    and l: "\<not> length (filter (\<lambda>w. coordMap st3 w \<noteq> None)
           (run_words posFilter uniqueOnly (tk3 (trim input)))) < 2"
    by (simp_all add: keep_loop_eq)
  show "currentWords (snd (run_v3 env input posFilter uniqueOnly st))
           = filter (\<lambda>w. coordMap st3 w \<noteq> None)
               (run_words posFilter uniqueOnly (tk3 (trim input)))"
    unfolding run_v3_reached [OF i e t refl] if_not_P [OF l] renderPlot_v2_currentWords
    by simp
qed

theorem C2_filter_keeps_witness:
  "fst (keep_loop_v1 (example_ready\<lparr>wordToIndex := [NEKO \<mapsto> 0]\<rparr>) [NEKO, INU, [0x41]] [] [])
     = [NEKO]
   \<and> fst (keep_loop (example_ready\<lparr>wordToIndex := [NEKO \<mapsto> 0]\<rparr>) [NEKO, INU, [0x41]] [] [])
     = [NEKO, INU]
   \<and> currentWords (snd (run_v1 (NEKO @ INU @ TORI @ NEKO) True True example_ready))
     = [NEKO, INU, TORI]
   \<and> currentWords (snd (run_v3 mismatch_env (NEKO @ INU) True True example_plot_ready))
     = [NEKO, INU]"
proof -
  have w: "[0x41] \<noteq> NEKO" "[0x41] \<noteq> INU" "[0x41] \<noteq> TORI"
    by (simp_all add: NEKO_def INU_def TORI_def)
  have a: "trim (NEKO @ INU @ TORI @ NEKO) \<noteq> []
      \<and> tokenizer example_ready = Some example_tokenizer
      \<and> 2 \<le> length (fst (keep_loop_v1 example_ready
           (run_words True True (example_tokenizer (trim (NEKO @ INU @ TORI @ NEKO)))) [] []))"
    by (simp add: example_trim example_words example_ready_fields keep_loop_v1_eq
        words_distinct index_map_example)
  have b: "trim (NEKO @ INU) \<noteq> []
      \<and> ensurePlotly_v3 mismatch_env (example_plot_ready\<lparr>runDisabled := True\<rparr>)
          = (Returned, example_plot_ready\<lparr>runDisabled := True\<rparr>)
      \<and> ensureTokenizer_v3 mismatch_env (example_plot_ready\<lparr>runDisabled := True\<rparr>)
          = (Returned, example_plot_ready\<lparr>runDisabled := True\<rparr>)
      \<and> ensureCoords mismatch_env (example_plot_ready\<lparr>runDisabled := True\<rparr>)
          = (Returned, example_plot_ready\<lparr>runDisabled := True\<rparr>)
      \<and> tokenizer (example_plot_ready\<lparr>runDisabled := True\<rparr>) = Some example_tokenizer
      \<and> 2 \<le> length (fst (keep_loop (example_plot_ready\<lparr>runDisabled := True\<rparr>)
           (run_words True True (example_tokenizer (trim (NEKO @ INU)))) [] []))"
    by (simp add: example_trim example_words example_plot_ready_fields
        example_plot_ready_ensures keep_loop_eq words_distinct)
  note t = C2_filter_keeps [where st = "example_ready\<lparr>wordToIndex := [NEKO \<mapsto> 0]\<rparr>"
      and ws = "[NEKO, INU, [0x41]]"]
  note t1 = C2_filter_keeps [where input = "NEKO @ INU @ TORI @ NEKO" and st = example_ready
      and tk = example_tokenizer and posFilter = True and uniqueOnly = True,
      THEN conjunct2, THEN conjunct2, THEN conjunct1, THEN mp, OF a]
  note t3 = C2_filter_keeps [where input = "NEKO @ INU" and st = example_plot_ready
      and posFilter = True and uniqueOnly = True and env = mismatch_env
      and ?st1.0 = "example_plot_ready\<lparr>runDisabled := True\<rparr>"
      and ?st2.0 = "example_plot_ready\<lparr>runDisabled := True\<rparr>"
      and ?st3.0 = "example_plot_ready\<lparr>runDisabled := True\<rparr>"
      and ?tk3.0 = example_tokenizer,
      THEN conjunct2, THEN conjunct2, THEN conjunct2, THEN mp, OF b]
  show ?thesis
    using t [THEN conjunct1] t [THEN conjunct2, THEN conjunct1] t1 t3
    by (simp add: example_ready_fields example_plot_ready_fields example_trim example_words
        words_distinct index_map_example w)
qed

lemma kept_aligned:
  assumes "kept = filter (\<lambda>w. m w \<noteq> None) ws" and "p < length kept"
  shows "m (kept ! p) = Some (map (\<lambda>w. the (m w)) kept ! p)"
proof -
  have "kept ! p \<in> set kept" using assms(2) by simp
  then have "m (kept ! p) \<noteq> None" unfolding assms(1) by simp
  then show ?thesis using assms(2) by auto
qed

lemma ensureCoordsLoaded_v4_frame:
  assumes "ensureCoordsLoaded_v4 env st = (oc, st')"
  shows "oc \<noteq> Pending \<and> (oc \<noteq> Returned \<longrightarrow> status st' = StLoadingCoords)
    \<and> tokenizer st' = tokenizer st"
  using assms
  by (auto simp: ensureCoordsLoaded_v4_def Let_def fetch_def setStatus_def
      split: if_splits option.splits)

lemma run_v4_done:
  assumes "trim input \<noteq> []"
    and "status (snd (run_v4 env input posFilter uniqueOnly st)) = StDone n"
  shows "\<exists>st2 kept. kept = filter (\<lambda>w. coordMap st2 w \<noteq> None) kept
    \<and> snd (run_v4 env input posFilter uniqueOnly st) =
        st2\<lparr>currentWords := kept, currentXY := map (\<lambda>w. the (coordMap st2 w)) kept,
            status := StDone (length kept),
            plot := Some (kept, map (\<lambda>w. the (coordMap st2 w)) kept), runDisabled := False\<rparr>"
proof (cases "tokenizer st")
  case None
  with assms show ?thesis
    by (simp add: run_v4_def Let_def setStatus_def)
next
  case (Some tk)
  let ?st1 = "setStatus StTokenizing (st\<lparr>runDisabled := True\<rparr>)"
  let ?ws = "run_words posFilter uniqueOnly (tk (trim input))"
  obtain oc st2 where e: "ensureCoordsLoaded_v4 env ?st1 = (oc, st2)"
    by (cases "ensureCoordsLoaded_v4 env ?st1")
  note f = ensureCoordsLoaded_v4_frame [OF e]
  let ?kept = "filter (\<lambda>w. coordMap st2 w \<noteq> None) ?ws"
  have r: "run_v4 env input posFilter uniqueOnly st =
      seq (oc, st2) (\<lambda>st2. case keep_loop st2 ?ws [] [] of
                (kept, xy) \<Rightarrow>
                  if length kept < 2
                  then (Returned, (setStatus StTooFewWords st2)\<lparr>runDisabled := False\<rparr>)
                  else (Returned,
                     (renderPlot_v1 kept xy
                        (setStatus (StDone (length kept))
                           (st2\<lparr>currentWords := kept, currentXY := xy\<rparr>)))
                     \<lparr>runDisabled := False\<rparr>))"
    using assms(1) Some by (simp add: run_v4_def Let_def setStatus_def e [unfolded setStatus_def])
  show ?thesis
  proof (cases oc)
    case Returned
    show ?thesis
    proof (cases "length ?kept < 2")
      case True
      with assms(2) show ?thesis
        unfolding r Returned by (simp add: seq_def keep_loop_eq setStatus_def)
    next
      case False
      have k: "?kept = filter (\<lambda>w. coordMap st2 w \<noteq> None) ?kept"
        by simp
      have "snd (run_v4 env input posFilter uniqueOnly st) =
        st2\<lparr>currentWords := ?kept, currentXY := map (\<lambda>w. the (coordMap st2 w)) ?kept,
            status := StDone (length ?kept),
            plot := Some (?kept, map (\<lambda>w. the (coordMap st2 w)) ?kept), runDisabled := False\<rparr>"
        unfolding r Returned using False
        by (simp add: seq_def keep_loop_eq setStatus_def renderPlot_v1_def)
      with k show ?thesis by blast
    qed
  next
    case (Thrown x)
    with assms(2) f show ?thesis
      unfolding r by (simp add: seq_def)
  next
    case Pending
    with f show ?thesis by simp
  qed
qed

text \<open>
  Claim C10 (variants 1 and 4, which keep both arrays). When a run on a text that is not
  blank ends with the status that \<open>n\<close> words were plotted, the plotted words and the
  plotted coordinates have the same length \<open>n\<close>, the coordinates at each position are
  the entry of the coordinate table for the word at that position, and the plot was drawn
  with these two arrays.
\<close>

theorem C10_words_and_points_aligned:
  "(trim input \<noteq> [] \<and> status (snd (run_v1 input posFilter uniqueOnly st)) = StDone n
     \<longrightarrow> length (currentWords (snd (run_v1 input posFilter uniqueOnly st))) = n
       \<and> length (currentXY (snd (run_v1 input posFilter uniqueOnly st))) = n
       \<and> (\<forall>p<n. coordMap (snd (run_v1 input posFilter uniqueOnly st))
                   (currentWords (snd (run_v1 input posFilter uniqueOnly st)) ! p)
                 = Some (currentXY (snd (run_v1 input posFilter uniqueOnly st)) ! p))
       \<and> plot (snd (run_v1 input posFilter uniqueOnly st))
           = Some (currentWords (snd (run_v1 input posFilter uniqueOnly st)),
                   currentXY (snd (run_v1 input posFilter uniqueOnly st))))
   \<and> (trim input \<noteq> [] \<and> status (snd (run_v4 env input posFilter uniqueOnly st)) = StDone n
     \<longrightarrow> length (currentWords (snd (run_v4 env input posFilter uniqueOnly st))) = n
       \<and> length (currentXY (snd (run_v4 env input posFilter uniqueOnly st))) = n
       \<and> (\<forall>p<n. coordMap (snd (run_v4 env input posFilter uniqueOnly st))
                   (currentWords (snd (run_v4 env input posFilter uniqueOnly st)) ! p)
                 = Some (currentXY (snd (run_v4 env input posFilter uniqueOnly st)) ! p))
       \<and> plot (snd (run_v4 env input posFilter uniqueOnly st))
           = Some (currentWords (snd (run_v4 env input posFilter uniqueOnly st)),
                   currentXY (snd (run_v4 env input posFilter uniqueOnly st))))"
proof (rule conjI; rule impI)
  assume a: "trim input \<noteq> [] \<and> status (snd (run_v1 input posFilter uniqueOnly st)) = StDone n"
  then obtain tk where t: "tokenizer st = Some tk"
    and l: "2 \<le> length (filter (\<lambda>w. coordMap st w \<noteq> None \<and> wordToIndex st w \<noteq> None)
           (run_words posFilter uniqueOnly (tk (trim input))))"
    using run_v1_status [of input posFilter uniqueOnly st n] by blast
  define kept where "kept = filter (\<lambda>w. coordMap st w \<noteq> None \<and> wordToIndex st w \<noteq> None)
           (run_words posFilter uniqueOnly (tk (trim input)))"
  define st' where "st' = snd (run_v1 input posFilter uniqueOnly st)"
  have i: "trim input \<noteq> []" using a by simp
  note p = run_v1_plot [OF i t kept_def l [folded kept_def] st'_def]
  have n: "n = length kept"
    using a p by (simp add: st'_def)
  have k: "kept = filter (\<lambda>w. coordMap st w \<noteq> None) kept"
    unfolding kept_def filter_filter by (rule filter_cong) auto
  have "\<forall>p<length kept. coordMap st (kept ! p) = Some (map (\<lambda>w. the (coordMap st w)) kept ! p)"
    using kept_aligned [OF k] by blast
  then show "length (currentWords (snd (run_v1 input posFilter uniqueOnly st))) = n
       \<and> length (currentXY (snd (run_v1 input posFilter uniqueOnly st))) = n
       \<and> (\<forall>p<n. coordMap (snd (run_v1 input posFilter uniqueOnly st))
                   (currentWords (snd (run_v1 input posFilter uniqueOnly st)) ! p)
                 = Some (currentXY (snd (run_v1 input posFilter uniqueOnly st)) ! p))
       \<and> plot (snd (run_v1 input posFilter uniqueOnly st))
           = Some (currentWords (snd (run_v1 input posFilter uniqueOnly st)),
                   currentXY (snd (run_v1 input posFilter uniqueOnly st)))"
    using p unfolding st'_def [symmetric] n by simp
next
  assume a: "trim input \<noteq> [] \<and> status (snd (run_v4 env input posFilter uniqueOnly st)) = StDone n"
  then obtain st2 kept where k: "kept = filter (\<lambda>w. coordMap st2 w \<noteq> None) kept"
    and r: "snd (run_v4 env input posFilter uniqueOnly st) =
        st2\<lparr>currentWords := kept, currentXY := map (\<lambda>w. the (coordMap st2 w)) kept,
            status := StDone (length kept),
            plot := Some (kept, map (\<lambda>w. the (coordMap st2 w)) kept), runDisabled := False\<rparr>"
    using run_v4_done [of input env posFilter uniqueOnly st n] by blast
  have n: "n = length kept"
    using a unfolding r by simp
  have "\<forall>p<length kept. coordMap st2 (kept ! p) = Some (map (\<lambda>w. the (coordMap st2 w)) kept ! p)"
    using kept_aligned [OF k] by blast
  then show "length (currentWords (snd (run_v4 env input posFilter uniqueOnly st))) = n
       \<and> length (currentXY (snd (run_v4 env input posFilter uniqueOnly st))) = n
       \<and> (\<forall>p<n. coordMap (snd (run_v4 env input posFilter uniqueOnly st))
                   (currentWords (snd (run_v4 env input posFilter uniqueOnly st)) ! p)
                 = Some (currentXY (snd (run_v4 env input posFilter uniqueOnly st)) ! p))
       \<and> plot (snd (run_v4 env input posFilter uniqueOnly st))
           = Some (currentWords (snd (run_v4 env input posFilter uniqueOnly st)),
                   currentXY (snd (run_v4 env input posFilter uniqueOnly st)))"
    unfolding r n by simp
qed

lemma parse_example:
  "parse_coords example_number example_csv Map.empty
     = [NEKO \<mapsto> (Fin 1, Fin 2), INU \<mapsto> (Fin 3, Fin 4)]"
  by (simp add: parse_coords_def example_csv_def NEKO_def INU_def trim_def js_space_def
      coords_row_def nth_opt_def example_number_def Let_def)

lemma run_v4_example:
  "run_v4 example_env (NEKO @ INU) True True (initial_state\<lparr>tokenizer := Some example_tokenizer\<rparr>)
     = (Returned, initial_state\<lparr>tokenizer := Some example_tokenizer,
          fetched := [COORDS_CSV],
          coordMap := [NEKO \<mapsto> (Fin 1, Fin 2), INU \<mapsto> (Fin 3, Fin 4)],
          coordsLoaded := True,
          currentWords := [NEKO, INU], currentXY := [(Fin 1, Fin 2), (Fin 3, Fin 4)],
          status := StDone 2,
          plot := Some ([NEKO, INU], [(Fin 1, Fin 2), (Fin 3, Fin 4)]),
          runDisabled := False\<rparr>)"
proof -
  have e: "ensureCoordsLoaded_v4 example_env
      (initial_state\<lparr>tokenizer := Some example_tokenizer, runDisabled := True,
         status := StTokenizing\<rparr>)
    = (Returned, initial_state\<lparr>tokenizer := Some example_tokenizer, runDisabled := True,
         fetched := [COORDS_CSV],
         coordMap := [NEKO \<mapsto> (Fin 1, Fin 2), INU \<mapsto> (Fin 3, Fin 4)],
         coordsLoaded := True, status := StReadyCoords\<rparr>)"
    by (simp add: ensureCoordsLoaded_v4_def example_env_def fetch_def setStatus_def Let_def)
      (simp add: initial_state_def parse_example)
  show ?thesis
    by (simp add: run_v4_def example_trim example_words Let_def setStatus_def e seq_def
        keep_loop_eq words_distinct renderPlot_v1_def)
qed

theorem C10_words_and_points_aligned_witness:
  "status (snd (run_v1 (NEKO @ INU @ TORI @ NEKO) True True example_ready)) = StDone 3
   \<and> currentWords (snd (run_v1 (NEKO @ INU @ TORI @ NEKO) True True example_ready))
       = [NEKO, INU, TORI]
   \<and> length (currentXY (snd (run_v1 (NEKO @ INU @ TORI @ NEKO) True True example_ready))) = 3
   \<and> coordMap (snd (run_v1 (NEKO @ INU @ TORI @ NEKO) True True example_ready)) TORI
       = Some (currentXY (snd (run_v1 (NEKO @ INU @ TORI @ NEKO) True True example_ready)) ! 2)
   \<and> status (snd (run_v4 example_env (NEKO @ INU) True True
         (initial_state\<lparr>tokenizer := Some example_tokenizer\<rparr>))) = StDone 2
   \<and> length (currentWords (snd (run_v4 example_env (NEKO @ INU) True True
         (initial_state\<lparr>tokenizer := Some example_tokenizer\<rparr>)))) = 2
   \<and> length (currentXY (snd (run_v4 example_env (NEKO @ INU) True True
         (initial_state\<lparr>tokenizer := Some example_tokenizer\<rparr>)))) = 2
   \<and> coordMap (snd (run_v4 example_env (NEKO @ INU) True True
         (initial_state\<lparr>tokenizer := Some example_tokenizer\<rparr>))) INU
       = Some (currentXY (snd (run_v4 example_env (NEKO @ INU) True True
         (initial_state\<lparr>tokenizer := Some example_tokenizer\<rparr>))) ! 1)"
proof -
  have i: "trim (NEKO @ INU @ TORI @ NEKO) \<noteq> []"
    by (simp add: example_trim)
  have k: "[NEKO, INU, TORI] = filter (\<lambda>w. coordMap example_ready w \<noteq> None
        \<and> wordToIndex example_ready w \<noteq> None)
      (run_words True True (example_tokenizer (trim (NEKO @ INU @ TORI @ NEKO))))"
    by (simp add: example_trim example_words example_ready_fields words_distinct
        index_map_example)
  note p = run_v1_plot [OF i example_ready_fields(1) k _ refl]
  have s1: "status (snd (run_v1 (NEKO @ INU @ TORI @ NEKO) True True example_ready)) = StDone 3"
    and w1: "currentWords (snd (run_v1 (NEKO @ INU @ TORI @ NEKO) True True example_ready))
       = [NEKO, INU, TORI]"
    using p by simp_all
  have s4: "status (snd (run_v4 example_env (NEKO @ INU) True True
         (initial_state\<lparr>tokenizer := Some example_tokenizer\<rparr>))) = StDone 2"
    and w4: "currentWords (snd (run_v4 example_env (NEKO @ INU) True True
         (initial_state\<lparr>tokenizer := Some example_tokenizer\<rparr>))) = [NEKO, INU]"
    by (simp_all add: run_v4_example)
  have i4: "trim (NEKO @ INU) \<noteq> []"
    by (simp add: example_trim)
  note t1 = C10_words_and_points_aligned [where input = "NEKO @ INU @ TORI @ NEKO"
      and posFilter = True and uniqueOnly = True and st = example_ready and n = 3,
      THEN conjunct1, THEN mp, OF conjI [OF i s1]]
  note t4 = C10_words_and_points_aligned [where input = "NEKO @ INU" and env = example_env
      and posFilter = True and uniqueOnly = True
      and st = "initial_state\<lparr>tokenizer := Some example_tokenizer\<rparr>" and n = 2,
      THEN conjunct2, THEN mp, OF conjI [OF i4 s4]]
  have a1: "coordMap (snd (run_v1 (NEKO @ INU @ TORI @ NEKO) True True example_ready))
        (currentWords (snd (run_v1 (NEKO @ INU @ TORI @ NEKO) True True example_ready)) ! 2)
       = Some (currentXY (snd (run_v1 (NEKO @ INU @ TORI @ NEKO) True True example_ready)) ! 2)"
    using t1 by simp
  have a4: "coordMap (snd (run_v4 example_env (NEKO @ INU) True True
         (initial_state\<lparr>tokenizer := Some example_tokenizer\<rparr>)))
        (currentWords (snd (run_v4 example_env (NEKO @ INU) True True
         (initial_state\<lparr>tokenizer := Some example_tokenizer\<rparr>))) ! 1)
       = Some (currentXY (snd (run_v4 example_env (NEKO @ INU) True True
         (initial_state\<lparr>tokenizer := Some example_tokenizer\<rparr>))) ! 1)"
    using t4 by simp
  show ?thesis
    using t1 t4 a1 a4 s1 s4 w1 w4 by simp
qed

section \<open>A selected word without an index\<close>

lemma ensureSimModel_v2_frame:
  assumes "ensureSimModel_v2 env st = (oc, st')"
  shows "selectedWord st' = selectedWord st \<and> simList st' = simList st
    \<and> currentWords st' = currentWords st \<and> plot st' = plot st \<and> oc \<noteq> Pending"
  using assms
  by (auto simp: ensureSimModel_v2_def Let_def fetch_def setStatus_def
      split: if_splits option.splits sum.splits)

lemma index_map_example_other:
  "index_map example_vocab [0x41] = None"
  by (simp add: index_map_def example_vocab_def NEKO_def INU_def TORI_def)

text \<open>
  Claim C9 as stated fails in the variants that load the model on the first click
  (lines 388-396): the load comes first, and when it fails the call throws, whatever the
  word. From the initial state, with a buffer of the wrong length, a word that is in the
  word index neither before nor after makes \<open>showSimilar\<close> throw.
\<close>

theorem C9_click_throws_counterexample:
  "wordToIndex initial_state [0x41] = None
   \<and> wordToIndex (snd (showSimilar_v2 mismatch_env (Some [0x41]) initial_state)) [0x41] = None
   \<and> fst (showSimilar_v2 mismatch_env (Some [0x41]) initial_state)
       = Thrown (SizeMismatch 3 150)"
proof -
  have i: "\<not> simLoaded (initial_state\<lparr>selectedWord := Some [0x41], simList := []\<rparr>)"
    by (simp add: initial_state_def)
  have b: "length (F32_ZERO @ F32_ZERO @ F32_ZERO) mod 4 = 0"
    by (simp add: F32_ZERO_def)
  have v: "length example_vocab = 3"
    by (simp add: example_vocab_def)
  show ?thesis
    by (simp add: showSimilar_v2_def seq_def
        ensureSimModel_v2_fetched [OF example_env_fields(3,4) b i]
        float32_elements_mismatch SIM_D_def v index_map_example_other)
      (simp add: initial_state_def)
qed

text \<open>
  Claim C9, amended. Variant 1: called with \<open>undefined\<close> or with a word that has no
  index, \<open>showSimilar\<close> returns, and the state is the one before but for the label, which
  is the word, and the list, which is empty; no similarity is computed and the plotted
  words are as before. Variant 2: \<open>showSimilar\<close> first sets the label, clears the list and
  ensures the model; when the word has no index once that step is over, the call ends as
  that step ended (it returns when the step returned, it throws the error of the load when
  the load failed), with the state that step left, in which the label is the word, the list
  is empty and the plotted words are as before. When the model is loaded already, the
  step only returns, so the call returns.
\<close>

theorem C9_absent_word:
  "((case word of None \<Rightarrow> True | Some wd \<Rightarrow> wordToIndex st wd = None)
      \<longrightarrow> showSimilar_v1 word st = (Returned, st\<lparr>selectedWord := word, simList := []\<rparr>))
   \<and> (ensureSimModel_v2 env (st\<lparr>selectedWord := word, simList := []\<rparr>) = (oc, st1)
        \<and> (case word of None \<Rightarrow> True | Some wd \<Rightarrow> wordToIndex st1 wd = None)
      \<longrightarrow> showSimilar_v2 env word st = (oc, st1)
        \<and> selectedWord st1 = word \<and> simList st1 = [] \<and> currentWords st1 = currentWords st
        \<and> (simLoaded st \<longrightarrow> oc = Returned \<and> st1 = st\<lparr>selectedWord := word, simList := []\<rparr>))"
proof (rule conjI; rule impI)
  assume "case word of None \<Rightarrow> True | Some wd \<Rightarrow> wordToIndex st wd = None"
  then have "(case word of None \<Rightarrow> None
      | Some wd \<Rightarrow> wordToIndex (st\<lparr>selectedWord := word, simList := []\<rparr>) wd) = None"
    by (simp split: option.splits)
  then show "showSimilar_v1 word st = (Returned, st\<lparr>selectedWord := word, simList := []\<rparr>)"
    unfolding showSimilar_v1_def Let_def by (simp only: option.case)
next
  assume a: "ensureSimModel_v2 env (st\<lparr>selectedWord := word, simList := []\<rparr>) = (oc, st1)
        \<and> (case word of None \<Rightarrow> True | Some wd \<Rightarrow> wordToIndex st1 wd = None)"
  then have e: "ensureSimModel_v2 env (st\<lparr>selectedWord := word, simList := []\<rparr>) = (oc, st1)"
    and n: "(case word of None \<Rightarrow> None | Some wd \<Rightarrow> wordToIndex st1 wd) = None"
    by (simp_all split: option.splits)
  note f = ensureSimModel_v2_frame [OF e]
  have "showSimilar_v2 env word st = (oc, st1)"
    unfolding showSimilar_v2_def e using n f by (cases oc) (simp_all add: seq_def)
  moreover have "simLoaded st \<longrightarrow> oc = Returned \<and> st1 = st\<lparr>selectedWord := word, simList := []\<rparr>"
    using e by (auto simp: ensureSimModel_v2_def)
  ultimately show "showSimilar_v2 env word st = (oc, st1)
        \<and> selectedWord st1 = word \<and> simList st1 = [] \<and> currentWords st1 = currentWords st
        \<and> (simLoaded st \<longrightarrow> oc = Returned \<and> st1 = st\<lparr>selectedWord := word, simList := []\<rparr>)"
    using f by simp
qed

theorem C9_absent_word_witness:
  "showSimilar_v1 (Some [0x41]) example_ready
     = (Returned, example_ready\<lparr>selectedWord := Some [0x41], simList := []\<rparr>)
   \<and> showSimilar_v2 mismatch_env (Some [0x41]) example_ready
     = (Returned, example_ready\<lparr>selectedWord := Some [0x41], simList := []\<rparr>)
   \<and> currentWords (example_ready\<lparr>selectedWord := Some [0x41], simList := []\<rparr>)
     = currentWords example_ready"
proof -
  have a: "case Some [0x41] of None \<Rightarrow> True | Some wd \<Rightarrow> wordToIndex example_ready wd = None"
    by (simp add: example_ready_fields index_map_example_other)
  have b: "ensureSimModel_v2 mismatch_env (example_ready\<lparr>selectedWord := Some [0x41], simList := []\<rparr>)
        = (Returned, example_ready\<lparr>selectedWord := Some [0x41], simList := []\<rparr>)
      \<and> (case Some [0x41] of None \<Rightarrow> True
          | Some wd \<Rightarrow> wordToIndex (example_ready\<lparr>selectedWord := Some [0x41], simList := []\<rparr>) wd
              = None)"
    by (simp add: ensureSimModel_v2_def example_ready_fields index_map_example_other)
  note t1 = C9_absent_word [where word = "Some [0x41]" and st = example_ready,
      THEN conjunct1, THEN mp, OF a]
  note t2 = C9_absent_word [where word = "Some [0x41]" and st = example_ready
      and env = mismatch_env and oc = Returned
      and ?st1.0 = "example_ready\<lparr>selectedWord := Some [0x41], simList := []\<rparr>",
      THEN conjunct2, THEN mp, OF b]
  show ?thesis
    using t1 t2 by simp
qed

section \<open>The sign of a difference\<close>

lemma round_half_even_nonneg: "0 \<le> x \<Longrightarrow> 0 \<le> round_half_even x"
  using round_half_even_mono [of 0 x] round_half_even_of_int [of 0] by simp

lemma round_half_even_ge1: "1 \<le> x \<Longrightarrow> 1 \<le> round_half_even x"
  using round_half_even_mono [of 1 x] round_half_even_of_int [of 1] by simp

lemma pow2_nonneg [simp]: "0 \<le> pow2 e"
  by (rule less_imp_le) (rule pow2_pos)

lemma pow2_int: "0 \<le> e \<Longrightarrow> pow2 e = of_int (2 ^ nat e)"
  by (simp add: pow2_def)

lemma round_double_on_grid: "on_grid (round_double q)"
proof (cases "q = 0")
  case True
  then show ?thesis
    by (simp add: round_double_def on_grid_def)
next
  case False
  define e where "e = max (ilog2 \<bar>q\<bar>) (- 1022)"
  define n where "n = round_half_even (\<bar>q\<bar> / pow2 (e - 52))"
  have e: "- 1022 \<le> e" by (simp add: e_def)
  have "pow2 (e - 52) = pow2 (e - 52 + 1074) * pow2 (- 1074)"
    by (subst pow2_add [symmetric]) simp
  also have "pow2 (e - 52 + 1074) = of_int (2 ^ nat (e - 52 + 1074))"
    using e by (intro pow2_int) simp
  finally have u: "pow2 (e - 52) = of_int (2 ^ nat (e - 52 + 1074)) * pow2 (- 1074)" .
  define sg :: int where "sg = (if 0 < q then 1 else - 1)"
  have s: "sgn q = of_int sg"
    using False by (simp add: sg_def sgn_if)
  have "sgn q * (of_int n * pow2 (e - 52))
      = of_int (sg * n * 2 ^ nat (e - 52 + 1074)) * pow2 (- 1074)"
    by (subst s, subst u) simp
  then have "on_grid (Fin (sgn q * (of_int n * pow2 (e - 52))))"
    unfolding on_grid_def by (simp only: jsnum.case) blast
  then show ?thesis
    using False by (simp add: round_double_def Let_def e_def n_def on_grid_def)
qed

lemma round_double_pos:
  assumes "0 < q" and "\<exists>m::int. q = of_int m * pow2 (- 1074)"
  shows "js_pos (round_double q)"
proof -
  define e where "e = max (ilog2 \<bar>q\<bar>) (- 1022)"
  define n where "n = round_half_even (\<bar>q\<bar> / pow2 (e - 52))"
  obtain m :: int where m: "q = of_int m * pow2 (- 1074)"
    using assms(2) by blast
  have "0 < m"
    using assms(1) pow2_pos [of "- 1074"] unfolding m
    by (auto simp: zero_less_mult_iff dest: less_asym)
  then have "(1::rat) \<le> of_int m" by simp
  then have "1 * pow2 (- 1074) \<le> of_int m * pow2 (- 1074)"
    by (rule mult_right_mono) simp
  then have g: "pow2 (- 1074) \<le> q"
    unfolding m by simp
  have "pow2 (e - 52) \<le> q"
  proof (cases "- 1022 \<le> ilog2 q")
    case True
    then have "e = ilog2 q" using assms(1) by (simp add: e_def)
    then have "pow2 (e - 52) \<le> pow2 (ilog2 q)" by (intro pow2_mono) simp
    also have "\<dots> \<le> q" using ilog2_bounds [OF assms(1)] by simp
    finally show ?thesis .
  next
    case False
    then have "e = - 1022" using assms(1) by (simp add: e_def)
    then show ?thesis using g by simp
  qed
  then have "1 \<le> \<bar>q\<bar> / pow2 (e - 52)"
    using assms(1) by (simp add: pos_le_divide_eq)
  then have "1 \<le> n"
    unfolding n_def by (rule round_half_even_ge1)
  then have v: "(0::rat) < of_int n * pow2 (e - 52)"
    by (simp add: zero_less_mult_iff)
  have "round_double q = (if pow2 1024 \<le> of_int n * pow2 (e - 52) then Inf (q < 0)
      else Fin (sgn q * (of_int n * pow2 (e - 52))))"
    using assms(1) by (simp add: round_double_def Let_def e_def n_def)
  then show ?thesis
    using assms(1) v by simp
qed

lemma round_double_nonpos:
  assumes "q \<le> 0"
  shows "\<not> js_pos (round_double q)"
proof (cases "q = 0")
  case True
  then show ?thesis by (simp add: round_double_def)
next
  case False
  define e where "e = max (ilog2 \<bar>q\<bar>) (- 1022)"
  define n where "n = round_half_even (\<bar>q\<bar> / pow2 (e - 52))"
  have q: "q < 0" using assms False by simp
  have "0 \<le> \<bar>q\<bar> / pow2 (e - 52)" by simp
  then have "0 \<le> n" unfolding n_def by (rule round_half_even_nonneg)
  then have v: "(0::rat) \<le> of_int n * pow2 (e - 52)"
    by (simp add: zero_le_mult_iff)
  have "round_double q = (if pow2 1024 \<le> of_int n * pow2 (e - 52) then Inf (q < 0)
      else Fin (sgn q * (of_int n * pow2 (e - 52))))"
    using False by (simp add: round_double_def Let_def e_def n_def)
  moreover have "sgn q = - 1" using q by simp
  ultimately show ?thesis
    using q v by (simp del: of_int_mult)
qed

lemma fdiv_on_grid: "on_grid (fdiv x y)"
  by (cases x; cases y) (simp_all add: round_double_on_grid, simp_all add: on_grid_def)

lemma cmp_sign:
  assumes "on_grid a" and "on_grid b" and "a \<noteq> NaN" and "b \<noteq> NaN"
  shows "js_pos (fsub b a) = js_less a b"
proof (cases a)
  case NaN
  with assms show ?thesis by simp
next
  case (Inf s)
  with assms(4) show ?thesis
    by (cases b) (auto simp: fsub_def)
next
  case (Fin x)
  note a = this
  show ?thesis
  proof (cases b)
    case NaN
    with assms show ?thesis by simp
  next
    case (Inf t)
    with a show ?thesis by (simp add: fsub_def)
  next
    case (Fin y)
    obtain m k :: int where m: "x = of_int m * pow2 (- 1074)" and k: "y = of_int k * pow2 (- 1074)"
      using assms(1,2) a Fin by (auto simp: on_grid_def)
    have g: "\<exists>j::int. y - x = of_int j * pow2 (- 1074)"
      unfolding m k by (rule exI [of _ "k - m"]) (simp add: algebra_simps)
    show ?thesis
    proof (cases "x < y")
      case True
      then have "js_pos (round_double (y - x))"
        using g by (intro round_double_pos) simp_all
      with True a Fin show ?thesis by (simp add: fsub_def)
    next
      case False
      then have "\<not> js_pos (round_double (y - x))"
        by (intro round_double_nonpos) simp
      with False a Fin show ?thesis by (simp add: fsub_def)
    qed
  qed
qed

lemma js_less_irrefl: "\<not> js_less a a"
  by (cases a) simp_all

lemma js_ge_trans:
  assumes "a \<noteq> NaN" and "b \<noteq> NaN" and "c \<noteq> NaN"
    and "\<not> js_less a b" and "\<not> js_less b c"
  shows "\<not> js_less a c"
  using assms by (cases a; cases b; cases c) auto

lemma js_less_imp_ge:
  "js_less a b \<Longrightarrow> \<not> js_less b a"
  by (cases a; cases b) auto

section \<open>The ranked list\<close>

lemma by_score_desc_pos:
  assumes "on_grid (snd a)" and "snd a \<noteq> NaN" and "on_grid (snd b)" and "snd b \<noteq> NaN"
  shows "js_pos (by_score_desc a b) = js_less (snd a) (snd b)"
  unfolding by_score_desc_def using assms by (intro cmp_sign)

lemma set_js_insert: "set (js_insert cmp x ys) = insert x (set ys)"
  by (induction ys) auto

lemma length_js_insert: "length (js_insert cmp x ys) = Suc (length ys)"
  by (induction ys) auto

lemma set_js_sort: "set (js_sort cmp xs) = set xs"
  by (induction xs) (simp_all add: js_sort_def set_js_insert)

lemma length_js_sort: "length (js_sort cmp xs) = length xs"
  by (induction xs) (simp_all add: js_sort_def length_js_insert)

lemma js_sort_Cons: "js_sort cmp (x # xs) = js_insert cmp x (js_sort cmp xs)"
  by (simp add: js_sort_def)

lemma sorted_js_insert:
  assumes "\<forall>c\<in>set (x # ys). on_grid (snd c) \<and> snd c \<noteq> NaN"
    and "sorted_wrt (\<lambda>a b. \<not> js_less (snd a) (snd b)) ys"
  shows "sorted_wrt (\<lambda>a b. \<not> js_less (snd a) (snd b)) (js_insert by_score_desc x ys)"
  using assms
proof (induction ys)
  case Nil
  then show ?case by simp
next
  case (Cons y ys)
  have p: "js_pos (by_score_desc x y) = js_less (snd x) (snd y)"
    using Cons.prems(1) by (intro by_score_desc_pos) simp_all
  show ?case
  proof (cases "js_less (snd x) (snd y)")
    case True
    have "sorted_wrt (\<lambda>a b. \<not> js_less (snd a) (snd b)) (js_insert by_score_desc x ys)"
      using Cons.prems by (intro Cons.IH) simp_all
    moreover have "\<forall>z\<in>set (js_insert by_score_desc x ys). \<not> js_less (snd y) (snd z)"
      using Cons.prems(2) True by (auto simp: set_js_insert dest: js_less_imp_ge)
    ultimately show ?thesis
      using True p by simp
  next
    case False
    have "\<forall>z\<in>set ys. \<not> js_less (snd x) (snd z)"
    proof
      fix z assume z: "z \<in> set ys"
      then have "\<not> js_less (snd y) (snd z)"
        using Cons.prems(2) by simp
      with False show "\<not> js_less (snd x) (snd z)"
        using Cons.prems(1) z by (intro js_ge_trans [of "snd x" "snd y" "snd z"]) simp_all
    qed
    with False p Cons.prems(2) show ?thesis by simp
  qed
qed

lemma sorted_js_sort:
  assumes "\<forall>c\<in>set xs. on_grid (snd c) \<and> snd c \<noteq> NaN"
  shows "sorted_wrt (\<lambda>a b. \<not> js_less (snd a) (snd b)) (js_sort by_score_desc xs)"
  using assms
proof (induction xs)
  case Nil
  then show ?case by (simp add: js_sort_def)
next
  case (Cons x xs)
  show ?case
    unfolding js_sort_Cons
    using Cons.prems by (intro sorted_js_insert Cons.IH) (simp_all add: set_js_sort)
qed

lemma filter_js_insert:
  assumes "\<forall>c\<in>set (x # ys). on_grid (snd c) \<and> snd c \<noteq> NaN"
  shows "filter (\<lambda>c. snd c = v) (js_insert by_score_desc x ys) = filter (\<lambda>c. snd c = v) (x # ys)"
  using assms
proof (induction ys)
  case Nil
  then show ?case by simp
next
  case (Cons y ys)
  have p: "js_pos (by_score_desc x y) = js_less (snd x) (snd y)"
    using Cons.prems(1) by (intro by_score_desc_pos) simp_all
  show ?case
  proof (cases "js_less (snd x) (snd y)")
    case True
    then have ne: "snd x \<noteq> snd y"
      using js_less_irrefl [of "snd x"] by auto
    have "filter (\<lambda>c. snd c = v) (js_insert by_score_desc x ys)
        = filter (\<lambda>c. snd c = v) (x # ys)"
      using Cons.prems by (intro Cons.IH) simp_all
    with True p ne show ?thesis by auto
  next
    case False
    with p show ?thesis by simp
  qed
qed

lemma filter_js_sort:
  assumes "\<forall>c\<in>set xs. on_grid (snd c) \<and> snd c \<noteq> NaN"
  shows "filter (\<lambda>c. snd c = v) (js_sort by_score_desc xs) = filter (\<lambda>c. snd c = v) xs"
  using assms
proof (induction xs)
  case Nil
  then show ?case by (simp add: js_sort_def)
next
  case (Cons x xs)
  have "filter (\<lambda>c. snd c = v) (js_insert by_score_desc x (js_sort by_score_desc xs))
      = filter (\<lambda>c. snd c = v) (x # js_sort by_score_desc xs)"
    using Cons.prems by (intro filter_js_insert) (simp_all add: set_js_sort)
  then show ?case
    unfolding js_sort_Cons using Cons.IH Cons.prems by simp
qed

lemma prefix_filter_take: "prefix (filter P (take n xs)) (filter P xs)"
proof -
  have "filter P xs = filter P (take n xs) @ filter P (drop n xs)"
    by (metis append_take_drop_id filter_append)
  then show ?thesis by (simp add: prefix_def)
qed

lemma on_grid_0: "on_grid (Fin 0)"
  unfolding on_grid_def by (simp only: jsnum.case) (rule exI [of _ 0], simp)

lemma cosine_on_grid:
  assumes "cosineSimByIndex st i j = Inr s"
  shows "on_grid s"
proof (cases "vecData st")
  case None
  with assms show ?thesis by (simp add: cosineSimByIndex_def)
next
  case (Some vd)
  obtain d ni nj where f: "fold (cos_step vd (i * SIM_D) (j * SIM_D)) [0..<SIM_D]
      (Fin 0, Fin 0, Fin 0) = (d, ni, nj)"
    by (metis prod_cases3)
  have "s = Fin 0 \<or> s = fdiv d (fmul (fsqrt ni) (fsqrt nj))"
    using assms Some f by (auto simp: cosineSimByIndex_def Let_def split: if_splits)
  then show ?thesis
    using on_grid_0 fdiv_on_grid by auto
qed

lemma score_all_v2_Inr:
  assumes "score_all_v2 st word i ws = Inr scored"
  shows "map fst scored = filter (\<lambda>w. Some w \<noteq> word \<and> wordToIndex st w \<noteq> None) ws
    \<and> (\<forall>c\<in>set scored. \<exists>j. wordToIndex st (fst c) = Some j
          \<and> cosineSimByIndex st i j = Inr (snd c))"
  using assms
proof (induction ws arbitrary: scored)
  case Nil
  then show ?case by simp
next
  case (Cons w ws)
  show ?case
  proof (cases "Some w = word \<or> wordToIndex st w = None")
    case True
    then have "score_all_v2 st word i (w # ws) = score_all_v2 st word i ws"
      by auto
    with Cons.prems have "score_all_v2 st word i ws = Inr scored" by simp
    from Cons.IH [OF this] True show ?thesis by auto
  next
    case False
    then obtain j where j: "wordToIndex st w = Some j" and w: "Some w \<noteq> word"
      by auto
    obtain s where s: "cosineSimByIndex st i j = Inr s"
      using Cons.prems j w by (cases "cosineSimByIndex st i j") auto
    obtain r where r: "score_all_v2 st word i ws = Inr r"
      using Cons.prems j w s by (cases "score_all_v2 st word i ws") auto
    have "scored = (w, s) # r"
      using Cons.prems j w s r by auto
    with Cons.IH [OF r] j w s show ?thesis by auto
  qed
qed

lemma score_all_v1_Inr:
  assumes "score_all_v1 st i ws = Inr scored"
  shows "map fst (List.map_filter (\<lambda>c. c) scored) = filter (\<lambda>w. wordToIndex st w \<noteq> None) ws
    \<and> (\<forall>c\<in>set (List.map_filter (\<lambda>c. c) scored). \<exists>j. wordToIndex st (fst c) = Some j
          \<and> cosineSimByIndex st i j = Inr (snd c))"
  using assms
proof (induction ws arbitrary: scored)
  case Nil
  then show ?case by (simp add: List.map_filter_simps)
next
  case (Cons w ws)
  show ?case
  proof (cases "wordToIndex st w")
    case None
    obtain r where r: "score_all_v1 st i ws = Inr r"
      using Cons.prems None by (cases "score_all_v1 st i ws") auto
    have "scored = None # r"
      using Cons.prems None r by auto
    with Cons.IH [OF r] None show ?thesis
      by (auto simp: List.map_filter_simps)
  next
    case (Some j)
    obtain s where s: "cosineSimByIndex st i j = Inr s"
      using Cons.prems Some by (cases "cosineSimByIndex st i j") auto
    obtain r where r: "score_all_v1 st i ws = Inr r"
      using Cons.prems Some s by (cases "score_all_v1 st i ws") auto
    have "scored = Some (w, s) # r"
      using Cons.prems Some s r by auto
    with Cons.IH [OF r] Some s show ?thesis
      by (auto simp: List.map_filter_simps)
  qed
qed

lemma cosine_cong:
  "vecData st = vecData st' \<Longrightarrow> cosineSimByIndex st i j = cosineSimByIndex st' i j"
  by (simp add: cosineSimByIndex_def)

lemma ranked_similar_cong:
  assumes "vecData st = vecData st'" and "wordToIndex st = wordToIndex st'"
    and "currentWords st = currentWords st'"
  shows "ranked_similar st i word out = ranked_similar st' i word out"
  unfolding ranked_similar_def cosine_cong [OF assms(1)] assms(2,3) ..

lemma ranked_core:
  assumes m: "map fst scored
      = filter (\<lambda>w. w \<noteq> word \<and> wordToIndex st w \<noteq> None) (currentWords st)"
    and s: "\<forall>c\<in>set scored. \<exists>j. wordToIndex st (fst c) = Some j
          \<and> cosineSimByIndex st i j = Inr (snd c)"
  shows "ranked_similar st i word (take 10 (js_sort by_score_desc scored))"
proof -
  define elig where "elig = filter (\<lambda>w. w \<noteq> word \<and> wordToIndex st w \<noteq> None) (currentWords st)"
  define score where
    "score = (\<lambda>w v. case wordToIndex st w of None \<Rightarrow> False
                | Some j \<Rightarrow> cosineSimByIndex st i j = Inr v)"
  define out where "out = take 10 (js_sort by_score_desc scored)"
  have m': "map fst scored = elig"
    using m by (simp add: elig_def)
  have s': "score (fst c) (snd c)" if "c \<in> set scored" for c
    using s that by (auto simp: score_def)
  have sub: "set out \<subseteq> set scored"
    unfolding out_def using set_take_subset [of 10 "js_sort by_score_desc scored"]
    by (simp add: set_js_sort)
  have el: "fst c \<in> set elig" if "c \<in> set scored" for c
    using that m' by (metis image_eqI set_map)
  have a: "word \<notin> fst ` set out"
  proof
    assume "word \<in> fst ` set out"
    then obtain c where c: "c \<in> set out" and w: "fst c = word" by auto
    from c sub have "c \<in> set scored" by (rule subsetD [rotated])
    from el [OF this] w have "word \<in> set elig" by simp
    then show False by (simp add: elig_def)
  qed
  have b: "\<forall>c\<in>set out. fst c \<in> set elig \<and> score (fst c) (snd c)"
    using sub el s' by auto
  have c: "length out = min 10 (length elig)"
    unfolding out_def using m' by (simp add: length_js_sort min.commute flip: length_map [of fst scored])
  have d: "sorted_wrt (\<lambda>a b. \<not> js_less (snd a) (snd b)) out
      \<and> (\<forall>v\<in>snd ` set out.
            prefix (map fst (filter (\<lambda>c. snd c = v) out)) (filter (\<lambda>w. score w v) elig))"
    if n: "\<forall>w\<in>set elig. \<not> score w NaN"
  proof -
    have g: "\<forall>c\<in>set scored. on_grid (snd c) \<and> snd c \<noteq> NaN"
    proof
      fix c assume c: "c \<in> set scored"
      from s' [OF c] have "on_grid (snd c)"
        unfolding score_def using cosine_on_grid by (auto split: option.splits)
      moreover have "snd c \<noteq> NaN"
        using n el [OF c] s' [OF c] by auto
      ultimately show "on_grid (snd c) \<and> snd c \<noteq> NaN" ..
    qed
    have "sorted_wrt (\<lambda>a b. \<not> js_less (snd a) (snd b)) (js_sort by_score_desc scored)"
      using g by (rule sorted_js_sort)
    then have d1: "sorted_wrt (\<lambda>a b. \<not> js_less (snd a) (snd b)) out"
      unfolding out_def by (rule sorted_wrt_take)
    have d2: "prefix (map fst (filter (\<lambda>c. snd c = v) out)) (filter (\<lambda>w. score w v) elig)" for v
    proof -
      have "prefix (filter (\<lambda>c. snd c = v) out)
          (filter (\<lambda>c. snd c = v) (js_sort by_score_desc scored))"
        unfolding out_def by (rule prefix_filter_take)
      then have "prefix (filter (\<lambda>c. snd c = v) out) (filter (\<lambda>c. snd c = v) scored)"
        by (simp only: filter_js_sort [OF g])
      then have "prefix (map fst (filter (\<lambda>c. snd c = v) out))
          (map fst (filter (\<lambda>c. snd c = v) scored))"
        by (rule map_mono_prefix)
      moreover have "filter (\<lambda>c. snd c = v) scored = filter (\<lambda>c. score (fst c) v) scored"
      proof (rule filter_cong [OF refl])
        fix c assume c: "c \<in> set scored"
        have "score (fst c) v \<Longrightarrow> snd c = v"
          using s' [OF c] unfolding score_def by (auto split: option.splits)
        with s' [OF c] show "(snd c = v) = score (fst c) v" by auto
      qed
      moreover have "map fst (filter (\<lambda>c. score (fst c) v) scored)
          = filter (\<lambda>w. score w v) elig"
        unfolding m' [symmetric] filter_map by (simp add: comp_def)
      ultimately show ?thesis by simp
    qed
    from d1 d2 show ?thesis by blast
  qed
  note a' = a [unfolded out_def]
  note b' = b [unfolded out_def elig_def score_def]
  note c' = c [unfolded out_def elig_def]
  note d' = d [unfolded out_def elig_def score_def]
  show ?thesis
    unfolding ranked_similar_def Let_def
    by (intro conjI impI;
        (rule a' b' c' | (rule d' [THEN conjunct1], assumption)
          | (rule d' [THEN conjunct2], assumption)))
qed

lemma showSimilar_v1_returned:
  assumes "showSimilar_v1 (Some word) st = (Returned, st')"
    and "wordToIndex st word = Some i"
  shows "\<exists>scored. score_all_v1 st i (filter (\<lambda>w. w \<noteq> word) (currentWords st)) = Inr scored
    \<and> st' = st\<lparr>selectedWord := Some word,
         simList := take 10 (js_sort by_score_desc (List.map_filter (\<lambda>c. c) scored))\<rparr>"
proof -
  let ?st1 = "st\<lparr>selectedWord := Some word, simList := []\<rparr>"
  have c: "cosineSimByIndex ?st1 = cosineSimByIndex st"
    by (intro ext) (simp add: cosineSimByIndex_def)
  have e: "score_all_v1 ?st1 i ws = score_all_v1 st i ws" for ws
    by (induction ws) (simp_all add: c split: option.splits sum.splits)
  show ?thesis
  proof (cases "score_all_v1 st i (filter (\<lambda>w. w \<noteq> word) (currentWords st))")
    case (Inl err)
    then have "showSimilar_v1 (Some word) st = (Thrown err, ?st1)"
      unfolding showSimilar_v1_def Let_def using assms(2) by (simp add: e)
    with assms(1) show ?thesis by simp
  next
    case (Inr scored)
    then have "showSimilar_v1 (Some word) st = (Returned,
        st\<lparr>selectedWord := Some word,
           simList := take 10 (js_sort by_score_desc (List.map_filter (\<lambda>c. c) scored))\<rparr>)"
      unfolding showSimilar_v1_def Let_def fold_simList using assms(2) by (simp add: e)
    with assms(1) Inr show ?thesis by simp
  qed
qed

lemma showSimilar_v2_returned:
  assumes "showSimilar_v2 env (Some word) st = (Returned, st')"
    and "wordToIndex st' word = Some i"
  shows "\<exists>st1 scored. score_all_v2 st1 (Some word) i (currentWords st1) = Inr scored
    \<and> st' = st1\<lparr>simList := take 10 (js_sort by_score_desc scored)\<rparr>"
proof -
  obtain oc st1 where l: "ensureSimModel_v2 env (st\<lparr>selectedWord := Some word, simList := []\<rparr>)
      = (oc, st1)"
    by (cases "ensureSimModel_v2 env (st\<lparr>selectedWord := Some word, simList := []\<rparr>)")
  from ensureSimModel_v2_frame [OF l] have sl: "simList st1 = []"
    by simp
  have r: "oc = Returned"
    using assms(1) l unfolding showSimilar_v2_def seq_def by (cases oc) simp_all
  let ?rest = "case wordToIndex st1 word of
         None \<Rightarrow> (Returned, st1)
       | Some i \<Rightarrow>
          (case score_all_v2 st1 (Some word) i (currentWords st1) of
             Inl e \<Rightarrow> (Thrown e, st1)
           | Inr scored \<Rightarrow>
              (Returned, st1\<lparr>simList := take 10 (js_sort by_score_desc scored)\<rparr>))"
  have "showSimilar_v2 env (Some word) st = ?rest"
    unfolding showSimilar_v2_def l r seq_def Let_def fold_simList
    by (simp add: sl split: option.splits sum.splits)
  with assms(1) have rest: "?rest = (Returned, st')" by simp
  show ?thesis
  proof (cases "wordToIndex st1 word")
    case None
    with rest have "st' = st1" by simp
    with None assms(2) show ?thesis by simp
  next
    case (Some k)
    show ?thesis
    proof (cases "score_all_v2 st1 (Some word) k (currentWords st1)")
      case (Inl err)
      with rest Some show ?thesis by simp
    next
      case (Inr scored)
      with rest Some have st': "st' = st1\<lparr>simList := take 10 (js_sort by_score_desc scored)\<rparr>"
        by simp
      with assms(2) Some have "k = i" by simp
      with Inr st' show ?thesis by blast
    qed
  qed
qed

lemma float32_elements_append:
  "length xs mod 4 = 0 \<Longrightarrow> float32_elements (xs @ ys) = float32_elements xs @ float32_elements ys"
proof (induction xs rule: float32_elements.induct)
  case (1 b0 b1 b2 b3 bs)
  then show ?case by simp
qed simp_all

lemma float32_elements_nan:
  "float32_elements (example_vec_bytes @ F32_NAN @ concat (replicate 49 F32_ZERO))
     = example_vectors @ NaN # replicate 49 (Fin 0)"
proof -
  have "float32_elements (F32_NAN @ bs) = NaN # float32_elements bs" for bs
    by (simp add: F32_NAN_def float32_value_def)
  then show ?thesis
    using float32_elements_zeros [of 49 "[]"]
    by (simp add: float32_elements_append length_example_vec_bytes float32_elements_example)
qed

lemma cos_fold_nan:
  assumes "\<forall>k\<in>set ks. vec_get vd (offI + k) = Fin 0" and "round_double a = Fin a"
  shows "fold (cos_step vd offI offJ) ks (NaN, Fin a, NaN) = (NaN, Fin a, NaN)"
  using assms(1)
proof (induction ks)
  case Nil
  then show ?case by simp
next
  case (Cons k ks)
  have "cos_step vd offI offJ k (NaN, Fin a, NaN) = (NaN, Fin a, NaN)"
    using Cons.prems assms(2) by (simp add: cos_step_def round_double_0 Let_def)
  then show ?case
    using Cons.IH Cons.prems by simp
qed

lemma vec_get_append:
  "n < length xs \<Longrightarrow> vec_get (xs @ ys) n = vec_get xs n"
  by (simp add: vec_get_def nth_append)

lemma length_example_vectors: "length example_vectors = 150"
  by (simp add: example_vectors_def)

lemma cosine_nan_vectors:
  assumes "vecData st = Some (example_vectors @ NaN # replicate 49 (Fin 0))"
  shows "cosineSimByIndex st 1 2 = Inr (Fin 0)"
    and "cosineSimByIndex st 1 3 = Inr NaN"
    and "cosineSimByIndex st 1 0 = Inr (Fin (1592262918131443 / 2251799813685248))"
proof -
  let ?vd = "example_vectors @ NaN # replicate 49 (Fin 0)"
  have g: "vec_get ?vd n = vec_get example_vectors n" if "n < 150" for n
    using that by (simp add: vec_get_append length_example_vectors)
  have n: "vec_get ?vd 150 = NaN"
    by (simp add: vec_get_def nth_append length_example_vectors)
  show "cosineSimByIndex st 1 2 = Inr (Fin 0)"
    by (rule cosine_zero [OF assms]) (simp add: g vec_get_example_zero SIM_D_def)
  have "fold (cos_step ?vd (1 * SIM_D) (0 * SIM_D)) [0..<SIM_D] (Fin 0, Fin 0, Fin 0)
      = fold (cos_step example_vectors (1 * SIM_D) (0 * SIM_D)) [0..<SIM_D] (Fin 0, Fin 0, Fin 0)"
    by (rule fold_cong) (simp_all add: cos_step_def g SIM_D_def fun_eq_iff)
  then have "cosineSimByIndex st 1 0 = cosineSimByIndex example_model 1 0"
    unfolding cosineSimByIndex_def assms vecData_example_model Let_def
    by (simp only: option.case)
  then show "cosineSimByIndex st 1 0 = Inr (Fin (1592262918131443 / 2251799813685248))"
    by (simp only: cosine_inu_neko)
  have "cos_step ?vd (1 * SIM_D) (3 * SIM_D) 1
      (cos_step ?vd (1 * SIM_D) (3 * SIM_D) 0 (Fin 0, Fin 0, Fin 0)) = (NaN, Fin 1, NaN)"
    by (simp add: cos_step_def Let_def SIM_D_def g n vec_get_example round_double_1
        round_double_0)
  then have "fold (cos_step ?vd (1 * SIM_D) (3 * SIM_D)) [0..<SIM_D] (Fin 0, Fin 0, Fin 0)
      = fold (cos_step ?vd (1 * SIM_D) (3 * SIM_D)) [2..<50] (NaN, Fin 1, NaN)"
    by (simp only: upt_SIM_D fold_simps)
  also have "\<dots> = (NaN, Fin 1, NaN)"
    by (rule cos_fold_nan) (simp_all add: SIM_D_def g vec_get_example_zero round_double_1)
  finally show "cosineSimByIndex st 1 3 = Inr NaN"
    by (simp add: cosineSimByIndex_def assms Let_def)
qed

lemma showSimilar_v1_eval:
  assumes "wordToIndex st word = Some i"
    and "score_all_v1 st i (filter (\<lambda>w. w \<noteq> word) (currentWords st)) = Inr scored"
  shows "showSimilar_v1 (Some word) st = (Returned,
      st\<lparr>selectedWord := Some word,
         simList := take 10 (js_sort by_score_desc (List.map_filter (\<lambda>c. c) scored))\<rparr>)"
proof -
  let ?st1 = "st\<lparr>selectedWord := Some word, simList := []\<rparr>"
  have c: "cosineSimByIndex ?st1 = cosineSimByIndex st"
    by (intro ext) (simp add: cosineSimByIndex_def)
  have e: "score_all_v1 ?st1 i ws = score_all_v1 st i ws" for ws
    by (induction ws) (simp_all add: c split: option.splits sum.splits)
  show ?thesis
    unfolding showSimilar_v1_def Let_def fold_simList using assms by (simp add: e)
qed

lemma showSimilar_v2_eval:
  assumes l: "ensureSimModel_v2 env (st\<lparr>selectedWord := Some word, simList := []\<rparr>)
      = (Returned, st1)"
    and i: "wordToIndex st1 word = Some i"
    and s: "score_all_v2 st1 (Some word) i (currentWords st1) = Inr scored"
  shows "showSimilar_v2 env (Some word) st
    = (Returned, st1\<lparr>simList := take 10 (js_sort by_score_desc scored)\<rparr>)"
proof -
  from ensureSimModel_v2_frame [OF l] have sl: "simList st1 = []"
    by simp
  show ?thesis
    unfolding showSimilar_v2_def l seq_def Let_def fold_simList
    by (simp add: i s sl)
qed

lemma words_differ:
  "NEKO \<noteq> INU" "TORI \<noteq> INU" "KUMA \<noteq> INU" "INU \<noteq> NEKO" "INU \<noteq> TORI" "INU \<noteq> KUMA"
  by (simp_all add: NEKO_def INU_def TORI_def KUMA_def)

lemma index_map_kuma:
  "index_map (example_vocab @ [KUMA]) NEKO = Some 0"
  "index_map (example_vocab @ [KUMA]) INU = Some 1"
  "index_map (example_vocab @ [KUMA]) TORI = Some 2"
  "index_map (example_vocab @ [KUMA]) KUMA = Some 3"
  "index_map example_vocab KUMA = None"
  by (simp_all add: index_map_def example_vocab_def NEKO_def INU_def TORI_def KUMA_def)

lemma nan_env_fields:
  "vocab_json nan_env = Some (example_vocab @ [KUMA])"
  "vec_bin nan_env = Some (example_vec_bytes @ F32_NAN @ concat (replicate 49 F32_ZERO))"
  by (simp_all add: nan_env_def example_env_def)

lemma plotted_fields:
  "\<not> simLoaded (plotted ws)" "currentWords (plotted ws) = ws" "fetched (plotted ws) = []"
  by (simp_all add: plotted_def example_plot_ready_def initial_state_def)

text \<open>
  Claim C3 as stated fails when a score is \<open>NaN\<close>: the comparator \<open>b.s - a.s\<close> is then
  \<open>NaN\<close>, which the sort takes for "equal", and the list is not in descending order.
  The vocabulary has four words, the first component of the vector of the fourth is a
  \<open>NaN\<close>, and the four words are plotted. A click on the second word loads the model and
  lists the third word, with score 0, before the first, with a score above 0.7.
\<close>

theorem C3_nan_score_counterexample:
  "fst (showSimilar_v2 nan_env (Some INU) (plotted [TORI, KUMA, NEKO, INU])) = Returned
   \<and> wordToIndex (snd (showSimilar_v2 nan_env (Some INU) (plotted [TORI, KUMA, NEKO, INU]))) INU
       = Some 1
   \<and> simList (snd (showSimilar_v2 nan_env (Some INU) (plotted [TORI, KUMA, NEKO, INU])))
       = [(TORI, Fin 0), (KUMA, NaN), (NEKO, Fin (1592262918131443 / 2251799813685248))]
   \<and> js_less (Fin 0) (Fin (1592262918131443 / 2251799813685248))
   \<and> \<not> sorted_wrt (\<lambda>a b. \<not> js_less (snd a) (snd b))
         (simList (snd (showSimilar_v2 nan_env (Some INU) (plotted [TORI, KUMA, NEKO, INU]))))"
proof -
  let ?s0 = "(plotted [TORI, KUMA, NEKO, INU])\<lparr>selectedWord := Some INU, simList := []\<rparr>"
  define st1 where "st1 = snd (ensureSimModel_v2 nan_env ?s0)"
  have nl: "\<not> simLoaded ?s0"
    by (simp add: plotted_fields)
  have m: "length (example_vec_bytes @ F32_NAN @ concat (replicate 49 F32_ZERO)) mod 4 = 0"
    by (simp add: length_example_vec_bytes F32_NAN_def F32_ZERO_def length_concat
        sum_list_replicate)
  have len: "length (float32_elements
      (example_vec_bytes @ F32_NAN @ concat (replicate 49 F32_ZERO)))
      = length (example_vocab @ [KUMA]) * SIM_D"
    by (simp add: float32_elements_nan length_example_vectors example_vocab_def SIM_D_def)
  note e = ensureSimModel_v2_fetched [OF nan_env_fields m nl]
  have l: "ensureSimModel_v2 nan_env ?s0 = (Returned, st1)"
    unfolding st1_def e using len by simp
  have f: "wordToIndex st1 = index_map (example_vocab @ [KUMA])"
    "vecData st1 = Some (example_vectors @ NaN # replicate 49 (Fin 0))"
    "currentWords st1 = [TORI, KUMA, NEKO, INU]"
    unfolding st1_def e using len by (simp_all add: plotted_fields float32_elements_nan)
  have sc: "score_all_v2 st1 (Some INU) 1 (currentWords st1)
      = Inr [(TORI, Fin 0), (KUMA, NaN), (NEKO, Fin (1592262918131443 / 2251799813685248))]"
    by (simp add: f(1,3) index_map_kuma words_differ
        cosine_nan_vectors [OF f(2), unfolded One_nat_def])
  have so: "take 10 (js_sort by_score_desc
        [(TORI, Fin 0), (KUMA, NaN), (NEKO, Fin (1592262918131443 / 2251799813685248))])
      = [(TORI, Fin 0), (KUMA, NaN), (NEKO, Fin (1592262918131443 / 2251799813685248))]"
    by (simp add: js_sort_def by_score_desc_def fsub_def)
  have i: "wordToIndex st1 INU = Some 1"
    by (simp add: f(1) index_map_kuma)
  have "showSimilar_v2 nan_env (Some INU) (plotted [TORI, KUMA, NEKO, INU])
      = (Returned, st1\<lparr>simList :=
          [(TORI, Fin 0), (KUMA, NaN), (NEKO, Fin (1592262918131443 / 2251799813685248))]\<rparr>)"
    using showSimilar_v2_eval [OF l i sc] by (simp only: so)
  then show ?thesis
    by (simp add: i)
qed

lemma cosine_returns:
  "vecData st = Some vd \<Longrightarrow> \<exists>s. cosineSimByIndex st i j = Inr s"
  by (simp add: cosineSimByIndex_def Let_def split: prod.splits)

lemma score_all_v1_returns:
  assumes "vecData st = Some vd"
  shows "\<exists>r. score_all_v1 st i ws = Inr r"
proof (induction ws)
  case Nil
  then show ?case by simp
next
  case (Cons w ws)
  then obtain r where r: "score_all_v1 st i ws = Inr r" by blast
  show ?case
  proof (cases "wordToIndex st w")
    case None
    with r show ?thesis by simp
  next
    case (Some j)
    from cosine_returns [OF assms] obtain s where "cosineSimByIndex st i j = Inr s" by blast
    with r Some show ?thesis by simp
  qed
qed

lemma score_all_v2_returns:
  assumes "vecData st = Some vd"
  shows "\<exists>r. score_all_v2 st word i ws = Inr r"
proof (induction ws)
  case Nil
  then show ?case by simp
next
  case (Cons w ws)
  then obtain r where r: "score_all_v2 st word i ws = Inr r" by blast
  show ?case
  proof (cases "wordToIndex st w")
    case None
    with r show ?thesis by simp
  next
    case (Some j)
    from cosine_returns [OF assms] obtain s where "cosineSimByIndex st i j = Inr s" by blast
    with r Some show ?thesis by simp
  qed
qed

lemma showSimilar_v1_returns:
  assumes "vecData st = Some vd"
  shows "fst (showSimilar_v1 (Some word) st) = Returned"
proof (cases "wordToIndex st word")
  case None
  then show ?thesis
    by (simp add: showSimilar_v1_def)
next
  case (Some i)
  from score_all_v1_returns [OF assms] obtain scored where
    "score_all_v1 st i (filter (\<lambda>w. w \<noteq> word) (currentWords st)) = Inr scored"
    by blast
  from showSimilar_v1_eval [OF Some this] show ?thesis by simp
qed

lemma ensureSimModel_v2_vecData:
  assumes "ensureSimModel_v2 env st = (Returned, st1)" and "simLoaded st \<longrightarrow> vecData st \<noteq> None"
  shows "vecData st1 \<noteq> None"
  using assms
  by (auto simp: ensureSimModel_v2_def Let_def fetch_def setStatus_def
      split: if_splits option.splits sum.splits)

lemma showSimilar_v2_returns:
  assumes "fst (ensureSimModel_v2 env (st\<lparr>selectedWord := Some word, simList := []\<rparr>)) = Returned"
    and "simLoaded st \<longrightarrow> vecData st \<noteq> None"
  shows "fst (showSimilar_v2 env (Some word) st) = Returned"
proof -
  obtain st1 where l: "ensureSimModel_v2 env (st\<lparr>selectedWord := Some word, simList := []\<rparr>)
      = (Returned, st1)"
    using assms(1) by (metis prod.collapse)
  have "vecData st1 \<noteq> None"
    using assms(2) by (intro ensureSimModel_v2_vecData [OF l]) simp
  then obtain vd where vd: "vecData st1 = Some vd" by blast
  show ?thesis
  proof (cases "wordToIndex st1 word")
    case None
    then show ?thesis
      by (simp add: showSimilar_v2_def l seq_def)
  next
    case (Some i)
    from score_all_v2_returns [OF vd] obtain scored where
      "score_all_v2 st1 (Some word) i (currentWords st1) = Inr scored"
      by blast
    from showSimilar_v2_eval [OF l Some this] show ?thesis by simp
  qed
qed

text \<open>
  Claim C3, amended. When \<open>showSimilar\<close> returns for a word that has an index, the
  list it shows is ranked as \<open>ranked_similar\<close> says: the query and the plotted words
  without an index are left out, each entry is an eligible candidate with its score, the
  list has 10 entries or all the eligible candidates if they are fewer, and when the
  scores are numbers (none is \<open>NaN\<close>) they descend along the list, with equal scores in
  the order of the plot. This holds for the eager \<open>showSimilar\<close> (lines 140-164) and for
  the lazy one (lines 388-408). The eager one returns whenever there is a vector buffer;
  the lazy one returns whenever its \<open>ensureSimModel\<close> returns (and the flag, if it was
  set, came with a buffer).
\<close>

theorem C3_ranked_similar:
  "(showSimilar_v1 (Some word) st = (Returned, st') \<longrightarrow> wordToIndex st word = Some i
      \<longrightarrow> ranked_similar st' i word (simList st'))
   \<and> (showSimilar_v2 env (Some word) st = (Returned, st'') \<longrightarrow> wordToIndex st'' word = Some k
      \<longrightarrow> ranked_similar st'' k word (simList st''))
   \<and> (vecData st \<noteq> None \<longrightarrow> fst (showSimilar_v1 (Some word) st) = Returned)
   \<and> (fst (ensureSimModel_v2 env (st\<lparr>selectedWord := Some word, simList := []\<rparr>)) = Returned
      \<longrightarrow> (simLoaded st \<longrightarrow> vecData st \<noteq> None)
      \<longrightarrow> fst (showSimilar_v2 env (Some word) st) = Returned)"
proof (intro conjI impI)
  assume r: "showSimilar_v1 (Some word) st = (Returned, st')" and i: "wordToIndex st word = Some i"
  from showSimilar_v1_returned [OF r i] obtain scored where
    sc: "score_all_v1 st i (filter (\<lambda>w. w \<noteq> word) (currentWords st)) = Inr scored"
    and st': "st' = st\<lparr>selectedWord := Some word,
         simList := take 10 (js_sort by_score_desc (List.map_filter (\<lambda>c. c) scored))\<rparr>"
    by blast
  note s1 = score_all_v1_Inr [OF sc]
  have "map fst (List.map_filter (\<lambda>c. c) scored)
      = filter (\<lambda>w. w \<noteq> word \<and> wordToIndex st w \<noteq> None) (currentWords st)"
    using s1 [THEN conjunct1] by (simp only: filter_filter)
  then have "ranked_similar st i word
      (take 10 (js_sort by_score_desc (List.map_filter (\<lambda>c. c) scored)))"
    using s1 [THEN conjunct2] by (rule ranked_core)
  moreover have "simList st'
      = take 10 (js_sort by_score_desc (List.map_filter (\<lambda>c. c) scored))"
    by (simp add: st')
  moreover have "ranked_similar st' i word (simList st') = ranked_similar st i word (simList st')"
    by (rule ranked_similar_cong) (simp_all add: st')
  ultimately show "ranked_similar st' i word (simList st')"
    by simp
next
  assume r: "showSimilar_v2 env (Some word) st = (Returned, st'')"
    and k: "wordToIndex st'' word = Some k"
  from showSimilar_v2_returned [OF r k] obtain st1 scored where
    sc: "score_all_v2 st1 (Some word) k (currentWords st1) = Inr scored"
    and st'': "st'' = st1\<lparr>simList := take 10 (js_sort by_score_desc scored)\<rparr>"
    by blast
  note s2 = score_all_v2_Inr [OF sc]
  have "map fst scored
      = filter (\<lambda>w. w \<noteq> word \<and> wordToIndex st1 w \<noteq> None) (currentWords st1)"
    using s2 [THEN conjunct1] by simp
  then have "ranked_similar st1 k word (take 10 (js_sort by_score_desc scored))"
    using s2 [THEN conjunct2] by (rule ranked_core)
  moreover have "simList st'' = take 10 (js_sort by_score_desc scored)"
    by (simp add: st'')
  moreover have "ranked_similar st'' k word (simList st'')
      = ranked_similar st1 k word (simList st'')"
    by (rule ranked_similar_cong) (simp_all add: st'')
  ultimately show "ranked_similar st'' k word (simList st'')"
    by simp
next
  assume "vecData st \<noteq> None"
  then obtain vd where "vecData st = Some vd" by blast
  then show "fst (showSimilar_v1 (Some word) st) = Returned"
    by (rule showSimilar_v1_returns)
next
  assume "fst (ensureSimModel_v2 env (st\<lparr>selectedWord := Some word, simList := []\<rparr>)) = Returned"
    and "simLoaded st \<longrightarrow> vecData st \<noteq> None"
  then show "fst (showSimilar_v2 env (Some word) st) = Returned"
    by (rule showSimilar_v2_returns)
qed

theorem C3_ranked_similar_witness:
  "showSimilar_v1 (Some INU) (example_ready\<lparr>currentWords := [TORI, NEKO, INU, TORI]\<rparr>)
     = (Returned, example_ready\<lparr>currentWords := [TORI, NEKO, INU, TORI],
          selectedWord := Some INU,
          simList := [(NEKO, Fin (1592262918131443 / 2251799813685248)),
                      (TORI, Fin 0), (TORI, Fin 0)]\<rparr>)
   \<and> ranked_similar (example_ready\<lparr>currentWords := [TORI, NEKO, INU, TORI],
          selectedWord := Some INU,
          simList := [(NEKO, Fin (1592262918131443 / 2251799813685248)),
                      (TORI, Fin 0), (TORI, Fin 0)]\<rparr>) 1 INU
        [(NEKO, Fin (1592262918131443 / 2251799813685248)), (TORI, Fin 0), (TORI, Fin 0)]
   \<and> fst (showSimilar_v2 example_env (Some INU) (plotted [TORI, KUMA, NEKO, INU, TORI]))
       = Returned
   \<and> simList (snd (showSimilar_v2 example_env (Some INU) (plotted [TORI, KUMA, NEKO, INU, TORI])))
       = [(NEKO, Fin (1592262918131443 / 2251799813685248)), (TORI, Fin 0), (TORI, Fin 0)]
   \<and> ranked_similar
        (snd (showSimilar_v2 example_env (Some INU) (plotted [TORI, KUMA, NEKO, INU, TORI])))
        1 INU
        [(NEKO, Fin (1592262918131443 / 2251799813685248)), (TORI, Fin 0), (TORI, Fin 0)]"
proof -
  let ?x = "Fin (1592262918131443 / 2251799813685248)"
  let ?L = "[(NEKO, ?x), (TORI, Fin 0), (TORI, Fin 0)]"
  let ?e1 = "example_ready\<lparr>currentWords := [TORI, NEKO, INU, TORI]\<rparr>"
  let ?p = "plotted [TORI, KUMA, NEKO, INU, TORI]"
  have g: "on_grid ?x" "on_grid (Fin 0)"
    using cosine_on_grid [OF cosine_inu_neko] on_grid_0 by simp_all
  have p: "js_pos (by_score_desc (w, Fin 0) (w', ?x))"
    "\<not> js_pos (by_score_desc (w, ?x) (w', Fin 0))"
    "\<not> js_pos (by_score_desc (w, Fin 0) (w', Fin 0))" for w w'
    using g by (simp_all add: by_score_desc_pos)
  have so: "take 10 (js_sort by_score_desc [(TORI, Fin 0), (NEKO, ?x), (TORI, Fin 0)]) = ?L"
    by (simp add: js_sort_def p)
  have v1: "vecData ?e1 = vecData example_model" and w1: "wordToIndex ?e1 = index_map example_vocab"
    by (simp_all add: example_ready_fields vecData_example_model)
  have i1: "wordToIndex ?e1 INU = Some 1"
    by (simp add: w1 index_map_example)
  have sc1: "score_all_v1 ?e1 1 (filter (\<lambda>w. w \<noteq> INU) (currentWords ?e1))
      = Inr [Some (TORI, Fin 0), Some (NEKO, ?x), Some (TORI, Fin 0)]"
    by (simp add: w1 index_map_example words_differ cosine_cong [OF v1] cosine_tori
        cosine_inu_neko [unfolded One_nat_def])
  have r1: "showSimilar_v1 (Some INU) ?e1
      = (Returned, ?e1\<lparr>selectedWord := Some INU, simList := ?L\<rparr>)"
    using showSimilar_v1_eval [OF i1 sc1] by (simp add: List.map_filter_simps so)
  let ?s0 = "?p\<lparr>selectedWord := Some INU, simList := []\<rparr>"
  define st1 where "st1 = snd (ensureSimModel_v2 example_env ?s0)"
  have nl: "\<not> simLoaded ?s0"
    by (simp add: plotted_fields)
  have m: "length example_vec_bytes mod 4 = 0"
    by (simp add: length_example_vec_bytes)
  have len: "length (float32_elements example_vec_bytes) = length example_vocab * SIM_D"
    by (simp add: float32_elements_example length_example_vectors example_vocab_def SIM_D_def)
  note e = ensureSimModel_v2_fetched [OF example_env_fields(1,2) m nl]
  have l: "ensureSimModel_v2 example_env ?s0 = (Returned, st1)"
    unfolding st1_def e using len by simp
  have f: "wordToIndex st1 = index_map example_vocab"
    "vecData st1 = vecData example_model"
    "currentWords st1 = [TORI, KUMA, NEKO, INU, TORI]"
    unfolding st1_def e using len
    by (simp_all add: plotted_fields float32_elements_example vecData_example_model)
  have i2: "wordToIndex st1 INU = Some 1"
    by (simp add: f(1) index_map_example)
  have sc2: "score_all_v2 st1 (Some INU) 1 (currentWords st1)
      = Inr [(TORI, Fin 0), (NEKO, ?x), (TORI, Fin 0)]"
    by (simp add: f(1,3) index_map_example index_map_kuma words_differ cosine_cong [OF f(2)]
        cosine_tori cosine_inu_neko [unfolded One_nat_def])
  have r2: "showSimilar_v2 example_env (Some INU) ?p = (Returned, st1\<lparr>simList := ?L\<rparr>)"
    using showSimilar_v2_eval [OF l i2 sc2] by (simp only: so)
  have i2': "wordToIndex (st1\<lparr>simList := ?L\<rparr>) INU = Some 1"
    by (simp add: i2)
  have a: "ranked_similar (?e1\<lparr>selectedWord := Some INU, simList := ?L\<rparr>) 1 INU ?L"
    using C3_ranked_similar [where word = INU and st = ?e1 and i = 1,
        THEN conjunct1, rule_format, OF r1 i1] by simp
  have b: "ranked_similar (st1\<lparr>simList := ?L\<rparr>) 1 INU ?L"
    using C3_ranked_similar [where word = INU and st = ?p and env = example_env and k = 1,
        THEN conjunct2, THEN conjunct1, rule_format, OF r2 i2'] by simp
  show ?thesis
    using r1 a b by (simp add: r2)
qed

section \<open>Rounding errors\<close>

lemma pow2_less_cancel: "pow2 a \<le> q \<Longrightarrow> q < pow2 b \<Longrightarrow> a < b"
  using pow2_mono [of b a] by (cases "a < b") auto

lemma round_double_normal:
  assumes "pow2 (- 1022) \<le> q" and "q < pow2 1023"
  shows "\<exists>r. round_double q = Fin r \<and> pow2 (ilog2 q) \<le> r \<and> r \<le> pow2 (ilog2 q + 1)
    \<and> \<bar>r - q\<bar> \<le> q * pow2 (- 53)"
proof -
  have q: "0 < q"
    using assms(1) pow2_pos [of "- 1022"] by linarith
  define e where "e = ilog2 q"
  have b: "pow2 e \<le> q" "q < pow2 (e + 1)"
    using ilog2_bounds [OF q] by (simp_all add: e_def)
  have e1: "- 1022 \<le> e"
    using pow2_less_cancel [OF assms(1) b(2)] by simp
  have e2: "e < 1023"
    using pow2_less_cancel [OF b(1) assms(2)] .
  define ulp where "ulp = pow2 (e - 52)"
  have u: "0 < ulp"
    by (simp add: ulp_def)
  have pe: "pow2 e = pow2 52 * ulp"
    using pow2_add [of 52 "e - 52"] by (simp add: ulp_def)
  have "53 + (e - 52) = e + 1"
    by simp
  then have pe1: "pow2 (e + 1) = pow2 53 * ulp"
    using pow2_add [of 53 "e - 52"] by (simp only: ulp_def)
  define x where "x = q / ulp"
  have x1: "pow2 52 \<le> x" and x2: "x < pow2 53"
    using b u unfolding x_def pe pe1 by (simp_all add: pos_le_divide_eq pos_divide_less_eq)
  define n where "n = round_half_even x"
  have "round_half_even (of_int (2 ^ 52)) \<le> n"
    unfolding n_def using x1 by (intro round_half_even_mono) (simp add: pow2_def)
  then have n1: "2 ^ 52 \<le> n"
    by (simp only: round_half_even_of_int)
  have "n \<le> round_half_even (of_int (2 ^ 53))"
    unfolding n_def using x2 by (intro round_half_even_mono) (simp add: pow2_def)
  then have n2: "n \<le> 2 ^ 53"
    by (simp only: round_half_even_of_int)
  define v where "v = (of_int n :: rat) * ulp"
  have "(of_int (2 ^ 52) :: rat) \<le> of_int n"
    using n1 by (simp only: of_int_le_iff)
  then have v1: "pow2 e \<le> v"
    unfolding v_def pe using u by (simp add: pow2_def)
  have "(of_int n :: rat) \<le> of_int (2 ^ 53)"
    using n2 by (simp only: of_int_le_iff)
  then have v2: "v \<le> pow2 (e + 1)"
    unfolding v_def pe1 using u by (simp add: pow2_def)
  have "pow2 (e + 1) \<le> pow2 1023"
    using e2 by (intro pow2_mono) simp
  also have "\<dots> < pow2 1024"
    by (intro pow2_strict_mono) simp
  finally have v3: "\<not> pow2 1024 \<le> v"
    using v2 by linarith
  have "\<bar>of_int n - x\<bar> \<le> 1 / 2"
    unfolding n_def by (rule round_half_even_bounds)
  then have "\<bar>of_int n - x\<bar> * ulp \<le> 1 / 2 * ulp"
    using u by (intro mult_right_mono) simp_all
  moreover have "(of_int n - x) * ulp = v - q"
    using u by (simp add: v_def x_def left_diff_distrib)
  then have "\<bar>of_int n - x\<bar> * ulp = \<bar>v - q\<bar>"
    using u abs_mult [of "of_int n - x" ulp] by simp
  moreover have "1 / 2 * ulp = pow2 e * pow2 (- 53)"
    unfolding pe by (simp add: pow2_def)
  moreover have "pow2 e * pow2 (- 53) \<le> q * pow2 (- 53)"
    using b(1) by (intro mult_right_mono) simp_all
  ultimately have v4: "\<bar>v - q\<bar> \<le> q * pow2 (- 53)"
    by linarith
  have "round_double q = Fin v"
    using q e1 v3
    by (simp add: round_double_def Let_def e_def [symmetric] max_def ulp_def [symmetric]
        x_def [symmetric] n_def [symmetric] v_def [symmetric])
  with v1 v2 v4 show ?thesis
    by (simp add: e_def)
qed

lemma round_double_range:
  assumes "pow2 a \<le> q" and "q < pow2 b" and "- 1022 \<le> a" and "b \<le> 1023"
  shows "\<exists>r. round_double q = Fin r \<and> pow2 a \<le> r \<and> r \<le> pow2 b
    \<and> \<bar>r - q\<bar> \<le> q * pow2 (- 53)"
proof -
  have q: "0 < q"
    using assms(1) pow2_pos [of a] by linarith
  have l: "pow2 (- 1022) \<le> q"
    using pow2_mono [OF assms(3)] assms(1) by linarith
  have h: "q < pow2 1023"
    using pow2_mono [OF assms(4)] assms(2) by linarith
  from round_double_normal [OF l h] obtain r where r: "round_double q = Fin r"
    "pow2 (ilog2 q) \<le> r" "r \<le> pow2 (ilog2 q + 1)" "\<bar>r - q\<bar> \<le> q * pow2 (- 53)"
    by blast
  note b = ilog2_bounds [OF q]
  have "a < ilog2 q + 1"
    using assms(1) b by (intro pow2_less_cancel [of a q]) simp_all
  then have "pow2 a \<le> pow2 (ilog2 q)"
    by (intro pow2_mono) simp
  moreover have "ilog2 q < b"
    using assms(2) b by (intro pow2_less_cancel [of _ q]) simp_all
  then have "pow2 (ilog2 q + 1) \<le> pow2 b"
    by (intro pow2_mono) simp
  ultimately show ?thesis
    using r by (intro exI [of _ r]) linarith
qed

lemma square_mono:
  fixes a b :: rat
  assumes "0 \<le> a" and "a \<le> b"
  shows "a * a \<le> b * b"
  using assms by (intro mult_mono) simp_all

lemma fsqrt_normal:
  assumes "pow2 (- 1000) \<le> q" and "q < pow2 1000"
  shows "\<exists>s. fsqrt (Fin q) = Fin s
    \<and> pow2 (ilog2 q div 2) \<le> s \<and> s \<le> pow2 (ilog2 q div 2 + 1)
    \<and> (s * (1 - pow2 (- 53))) * (s * (1 - pow2 (- 53))) \<le> q
    \<and> q \<le> (s * (1 + pow2 (- 53))) * (s * (1 + pow2 (- 53)))"
proof -
  have q: "0 < q"
    using assms(1) pow2_pos [of "- 1000"] by linarith
  define L where "L = ilog2 q"
  define e where "e = L div 2"
  have b: "pow2 L \<le> q" "q < pow2 (L + 1)"
    using ilog2_bounds [OF q] by (simp_all add: L_def)
  have L1: "- 1000 \<le> L"
    using pow2_less_cancel [OF assms(1) b(2)] by simp
  have e0: "2 * e \<le> L" "L \<le> 2 * e + 1"
    unfolding e_def by presburger+
  have e1: "- 1022 \<le> e"
    using L1 e0 by linarith
  define ulp where "ulp = pow2 (e - 52)"
  have u: "0 < ulp"
    by (simp add: ulp_def)
  have uu: "ulp * ulp = pow2 (2 * e - 104)"
    using pow2_add [of "e - 52" "e - 52"] by (simp add: ulp_def algebra_simps)
  have pe: "pow2 e = pow2 52 * ulp"
    using pow2_add [of 52 "e - 52"] by (simp add: ulp_def)
  have "53 + (e - 52) = e + 1"
    by simp
  then have pe1: "pow2 (e + 1) = pow2 53 * ulp"
    using pow2_add [of 53 "e - 52"] by (simp only: ulp_def)
  have "104 + (2 * e - 104) = 2 * e"
    by simp
  then have p2e: "pow2 (2 * e) = pow2 104 * (ulp * ulp)"
    using pow2_add [of 104 "2 * e - 104"] by (simp only: uu)
  have "106 + (2 * e - 104) = 2 * e + 2"
    by simp
  then have p2e2: "pow2 (2 * e + 2) = pow2 106 * (ulp * ulp)"
    using pow2_add [of 106 "2 * e - 104"] by (simp only: uu)
  define r where "r = q / (ulp * ulp)"
  have uupos: "0 < ulp * ulp"
    using u by simp
  have qr: "q = r * (ulp * ulp)"
    using u by (simp add: r_def)
  have "pow2 (2 * e) \<le> q"
    using pow2_mono [OF e0(1)] b(1) by linarith
  then have r1: "pow2 104 \<le> r"
    unfolding p2e r_def using uupos by (simp add: pos_le_divide_eq)
  have "L + 1 \<le> 2 * e + 2"
    using e0(2) by simp
  then have "q < pow2 (2 * e + 2)"
    using pow2_mono [of "L + 1" "2 * e + 2"] b(2) by linarith
  then have r2: "r < pow2 106"
    unfolding p2e2 r_def using uupos by (simp add: pos_divide_less_eq)
  define m where "m = nat \<lfloor>r\<rfloor>"
  define k where "k = isqrt m"
  have r0: "0 \<le> r"
    using r1 pow2_pos [of 104] by linarith
  have m1: "of_nat m \<le> r" and m2: "r < of_nat m + 1"
    using r0 unfolding m_def by (simp_all add: of_nat_nat) linarith+
  have k1: "k * k \<le> m" and k2: "m < (k + 1) * (k + 1)"
    using isqrt_correct [of m] by (simp_all add: k_def)
  have "(2::rat) ^ 104 \<le> r"
    using r1 by (simp add: pow2_def)
  then have "(2::int) ^ 104 \<le> \<lfloor>r\<rfloor>"
    by (simp add: le_floor_iff)
  then have m104: "2 ^ 104 \<le> m"
    unfolding m_def by (simp add: le_nat_iff)
  have k52: "2 ^ 52 \<le> k"
  proof (rule ccontr)
    assume "\<not> 2 ^ 52 \<le> k"
    then have "k + 1 \<le> 2 ^ 52" by simp
    then have "(k + 1) * (k + 1) \<le> 2 ^ 52 * 2 ^ 52"
      by (intro mult_le_mono)
    also have "\<dots> = (2::nat) ^ 104"
      by (simp flip: power_add)
    finally show False using k2 m104 by simp
  qed
  have "r < 2 ^ 106"
    using r2 by (simp add: pow2_def)
  with m1 have "(of_nat m :: rat) < of_nat (2 ^ 106)"
    by simp
  then have m106: "m < 2 ^ 106"
    by (simp only: of_nat_less_iff)
  have k53: "k < 2 ^ 53"
  proof (rule ccontr)
    assume "\<not> k < 2 ^ 53"
    then have "2 ^ 53 \<le> k" by simp
    then have "2 ^ 53 * 2 ^ 53 \<le> k * k"
      by (intro mult_le_mono)
    moreover have "2 ^ 53 * 2 ^ 53 = (2::nat) ^ 106"
      by (simp flip: power_add)
    ultimately show False using k1 m106 by simp
  qed
  define K where "K = (of_nat k :: rat)"
  have K52: "2 ^ 52 \<le> K" and K53: "K + 1 \<le> 2 ^ 53"
  proof -
    have "(of_nat (2 ^ 52) :: rat) \<le> of_nat k"
      using k52 by (simp only: of_nat_le_iff)
    then show "2 ^ 52 \<le> K" by (simp add: K_def)
    have "k + 1 \<le> 2 ^ 53" using k53 by simp
    then have "(of_nat (k + 1) :: rat) \<le> of_nat (2 ^ 53)"
      by (simp only: of_nat_le_iff)
    then show "K + 1 \<le> 2 ^ 53" by (simp add: K_def)
  qed
  have "(of_nat (k * k) :: rat) \<le> of_nat m"
    using k1 by (simp only: of_nat_le_iff)
  then have Kr1: "K * K \<le> r"
    using m1 by (simp add: K_def)
  have "m + 1 \<le> (k + 1) * (k + 1)"
    using k2 by simp
  then have "(of_nat (m + 1) :: rat) \<le> of_nat ((k + 1) * (k + 1))"
    by (simp only: of_nat_le_iff)
  then have "of_nat m + 1 \<le> (K + 1) * (K + 1)"
    by (simp add: K_def algebra_simps)
  then have Kr2: "r < (K + 1) * (K + 1)"
    using m2 by linarith
  define h where "h = (K + 1 / 2) * (K + 1 / 2)"
  define n where "n = (if r < h then K else if h < r then K + 1 else if even (int k) then K else K + 1)"
  have K0: "1 \<le> K"
    using K52 by (rule order.trans [rotated]) simp
  have hK: "h \<le> (K + 1) * (K + 1)" and Kh: "(K - 1 / 2) * (K - 1 / 2) \<le> K * K"
    using K0 unfolding h_def by (simp_all add: algebra_simps; linarith)+
  have n1: "(n - 1 / 2) * (n - 1 / 2) \<le> r" and n2: "r \<le> (n + 1 / 2) * (n + 1 / 2)"
    and n3: "2 ^ 52 \<le> n" and n4: "n \<le> 2 ^ 53"
  proof -
    have c: "n = K \<and> r \<le> h \<or> n = K + 1 \<and> h \<le> r"
      unfolding n_def by auto
    from c show "(n - 1 / 2) * (n - 1 / 2) \<le> r"
    proof
      assume "n = K \<and> r \<le> h"
      then show ?thesis using Kh Kr1 by simp
    next
      assume "n = K + 1 \<and> h \<le> r"
      then show ?thesis by (simp add: h_def add.commute)
    qed
    from c show "r \<le> (n + 1 / 2) * (n + 1 / 2)"
    proof
      assume "n = K \<and> r \<le> h"
      then show ?thesis by (simp add: h_def)
    next
      assume a: "n = K + 1 \<and> h \<le> r"
      have "(K + 1) * (K + 1) \<le> (K + 1 + 1 / 2) * (K + 1 + 1 / 2)"
        using K0 by (simp add: algebra_simps; linarith)
      with a Kr2 show ?thesis by simp
    qed
    from c K52 K53 show "2 ^ 52 \<le> n" by auto
    from c K52 K53 show "n \<le> 2 ^ 53" by auto
  qed
  define s where "s = n * ulp"
  have f: "fsqrt (Fin q) = Fin s"
  proof -
    have mx: "max (ilog2 q div 2) (- 1022) = e"
      using e1 by (simp add: e_def L_def)
    have nn: "rat_of_int (if r < h then int k else if h < r then int k + 1
        else if even (int k) then int k else int k + 1) = n"
      by (simp add: n_def K_def)
    have mx': "max (ilog2 q div 2) (- 1022) = ilog2 q div 2"
      using mx by (simp add: e_def L_def)
    have qn: "\<not> q < 0" and q0: "q \<noteq> 0"
      using q by simp_all
    have "fsqrt (Fin q) = Fin (rat_of_int (if r < h then int k else if h < r then int k + 1
        else if even (int k) then int k else int k + 1) * ulp)"
      unfolding h_def K_def k_def m_def r_def ulp_def e_def L_def
      using qn q0 by (simp only: fsqrt.simps(3) Let_def mx' if_False of_int_of_nat_eq)
    then show ?thesis
      by (simp only: nn s_def)
  qed
  have s1: "pow2 e \<le> s" and s2: "s \<le> pow2 (e + 1)"
    unfolding s_def pe pe1 using n3 n4 u by (simp_all add: pow2_def)
  define c where "c = pow2 (- 53)"
  have c: "c = 1 / 2 ^ 53"
    by (simp add: c_def pow2_def)
  have nc: "1 / 2 \<le> n * c"
    using n3 by (simp add: c)
  have n0: "0 \<le> n - 1 / 2"
    using n3 by (simp add: order.trans [of _ "2 ^ 52"])
  have lo: "(s * (1 - c)) * (s * (1 - c)) \<le> q"
  proof -
    have a: "s * (1 - c) \<le> (n - 1 / 2) * ulp"
    proof -
      have "s * (1 - c) = (n - n * c) * ulp"
        by (simp add: s_def algebra_simps)
      also have "\<dots> \<le> (n - 1 / 2) * ulp"
        using nc u by (intro mult_right_mono) simp_all
      finally show ?thesis .
    qed
    have p: "0 \<le> s * (1 - c)"
      using n3 u by (simp add: s_def c order.trans [of 0 "2 ^ 52"])
    have "(s * (1 - c)) * (s * (1 - c)) \<le> ((n - 1 / 2) * ulp) * ((n - 1 / 2) * ulp)"
      using p a by (rule square_mono)
    also have "\<dots> = ((n - 1 / 2) * (n - 1 / 2)) * (ulp * ulp)"
      by (simp add: algebra_simps)
    also have "\<dots> \<le> r * (ulp * ulp)"
      using n1 uupos by (intro mult_right_mono) simp_all
    finally show ?thesis by (simp only: qr [symmetric])
  qed
  have hi: "q \<le> (s * (1 + c)) * (s * (1 + c))"
  proof -
    have a: "(n + 1 / 2) * ulp \<le> s * (1 + c)"
    proof -
      have "(n + 1 / 2) * ulp \<le> (n + n * c) * ulp"
        using nc u by (intro mult_right_mono) simp_all
      also have "\<dots> = s * (1 + c)"
        by (simp add: s_def algebra_simps)
      finally show ?thesis .
    qed
    have p: "0 \<le> (n + 1 / 2) * ulp"
      using n0 u by simp
    have "q = r * (ulp * ulp)"
      by (rule qr)
    also have "\<dots> \<le> ((n + 1 / 2) * (n + 1 / 2)) * (ulp * ulp)"
      using n2 uupos by (intro mult_right_mono) simp_all
    also have "\<dots> = ((n + 1 / 2) * ulp) * ((n + 1 / 2) * ulp)"
      by (simp add: algebra_simps)
    also have "\<dots> \<le> (s * (1 + c)) * (s * (1 + c))"
      using p a by (rule square_mono)
    finally show ?thesis .
  qed
  show ?thesis
    using f s1 s2 lo hi by (simp add: e_def L_def c_def)
qed

lemma self_cosine_bound:
  assumes "pow2 (- 298) \<le> q" and "q < pow2 400"
  shows "\<exists>f. fdiv (Fin q) (fmul (fsqrt (Fin q)) (fsqrt (Fin q))) = Fin f
    \<and> \<bar>f - 1\<bar> \<le> pow2 (- 50)"
proof -
  define c :: rat where "c = pow2 (- 53)"
  have c: "c = 1 / 2 ^ 53"
    by (simp add: c_def pow2_def)
  have q: "0 < q"
    using assms(1) pow2_pos [of "- 298"] by linarith
  define L where "L = ilog2 q"
  define e where "e = L div 2"
  have b: "pow2 L \<le> q" "q < pow2 (L + 1)"
    using ilog2_bounds [OF q] by (simp_all add: L_def)
  have L1: "- 298 \<le> L"
    using pow2_less_cancel [OF assms(1) b(2)] by simp
  have L2: "L < 400"
    using pow2_less_cancel [OF b(1) assms(2)] .
  have e1: "- 149 \<le> e" and e2: "e \<le> 199"
    using L1 L2 unfolding e_def by presburger+
  have ql: "pow2 (- 1000) \<le> q"
    using pow2_mono [of "- 1000" "- 298"] assms(1) by simp
  have qh: "q < pow2 1000"
    using pow2_mono [of 400 1000] assms(2) by simp
  from fsqrt_normal [OF ql qh] obtain s where s: "fsqrt (Fin q) = Fin s"
    and s1: "pow2 e \<le> s" and s2: "s \<le> pow2 (e + 1)"
    and lo: "(s * (1 - c)) * (s * (1 - c)) \<le> q"
    and hi: "q \<le> (s * (1 + c)) * (s * (1 + c))"
    unfolding c_def e_def L_def by blast
  define S where "S = s * s"
  have s0: "0 \<le> pow2 e"
    by simp
  have "pow2 e * pow2 e \<le> s * s"
    using s0 s1 by (rule square_mono)
  then have S1: "pow2 (2 * e) \<le> S"
    using pow2_add [of e e] by (simp add: S_def)
  have "0 \<le> s"
    using s0 s1 by linarith
  then have "s * s \<le> pow2 (e + 1) * pow2 (e + 1)"
    using s2 by (rule square_mono)
  then have "S \<le> pow2 (2 * e + 2)"
    using pow2_add [of "e + 1" "e + 1"] by (simp add: S_def algebra_simps)
  also have "\<dots> < pow2 (2 * e + 3)"
    by (intro pow2_strict_mono) simp
  finally have S2: "S < pow2 (2 * e + 3)" .
  have "- 1022 \<le> 2 * e" and "2 * e + 3 \<le> 1023"
    using e1 e2 by simp_all
  from round_double_range [OF S1 S2 this] obtain p where p: "round_double S = Fin p"
    and p1: "pow2 (2 * e) \<le> p" and pe: "\<bar>p - S\<bar> \<le> S * c"
    unfolding c_def by blast
  have p0: "0 < p"
    using p1 pow2_pos [of "2 * e"] by linarith
  have S0: "0 \<le> S"
    using S1 pow2_pos [of "2 * e"] by linarith
  have pl: "S * (1 - c) \<le> p" and ph: "p \<le> S * (1 + c)"
    using pe by (simp_all add: algebra_simps abs_le_iff)
  have lo': "S * ((1 - c) * (1 - c)) \<le> q" and hi': "q \<le> S * ((1 + c) * (1 + c))"
    using lo hi by (simp_all add: S_def algebra_simps)
  define t where "t = q / p"
  have t1: "1 - 3 * c \<le> t"
  proof -
    have "(1 - 3 * c) * p \<le> (1 - 3 * c) * (S * (1 + c))"
      using ph by (intro mult_left_mono) (simp_all add: c)
    also have "\<dots> = S * ((1 - 3 * c) * (1 + c))"
      by (simp add: algebra_simps)
    also have "\<dots> \<le> S * ((1 - c) * (1 - c))"
      using S0 by (intro mult_left_mono) (simp_all add: c)
    also have "\<dots> \<le> q"
      by (rule lo')
    finally show ?thesis
      using p0 by (simp add: t_def pos_le_divide_eq)
  qed
  have t2: "t \<le> 1 + 4 * c"
  proof -
    have "q \<le> S * ((1 + c) * (1 + c))"
      by (rule hi')
    also have "\<dots> \<le> S * ((1 + 4 * c) * (1 - c))"
      using S0 by (intro mult_left_mono) (simp_all add: c)
    also have "\<dots> = (1 + 4 * c) * (S * (1 - c))"
      by (simp add: algebra_simps)
    also have "\<dots> \<le> (1 + 4 * c) * p"
      using pl by (intro mult_left_mono) (simp_all add: c)
    finally show ?thesis
      using p0 by (simp add: t_def pos_divide_le_eq)
  qed
  have ta: "pow2 (- 1) \<le> t"
    using t1 by (simp add: c pow2_def)
  have tb: "t < pow2 1"
    using t2 by (simp add: c pow2_def)
  from round_double_range [OF ta tb] obtain f where f: "round_double t = Fin f"
    and fe: "\<bar>f - t\<bar> \<le> t * c"
    unfolding c_def by auto
  have t0: "0 \<le> t"
    using ta pow2_pos [of "- 1"] by linarith
  have fl: "t * (1 - c) \<le> f" and fh: "f \<le> t * (1 + c)"
    using fe by (simp_all add: algebra_simps abs_le_iff)
  have "(1 - 3 * c) * (1 - c) \<le> t * (1 - c)"
    using t1 by (intro mult_right_mono) (simp_all add: c)
  moreover have "1 - 8 * c \<le> (1 - 3 * c) * (1 - c)"
    by (simp add: c)
  moreover have "t * (1 + c) \<le> (1 + 4 * c) * (1 + c)"
    using t2 by (intro mult_right_mono) (simp_all add: c)
  moreover have "(1 + 4 * c) * (1 + c) \<le> 1 + 8 * c"
    by (simp add: c)
  ultimately have "\<bar>f - 1\<bar> \<le> 8 * c"
    using fl fh by (simp add: abs_le_iff)
  moreover have "8 * c = pow2 (- 50)"
    by (simp add: c pow2_def)
  moreover have "fdiv (Fin q) (fmul (fsqrt (Fin q)) (fsqrt (Fin q))) = Fin f"
    using p p0 f by (simp add: s S_def t_def)
  ultimately show ?thesis
    by auto
qed

section \<open>The similarity of a vector to itself\<close>

lemma float32_value_range:
  assumes "float32_value bits = Fin q"
  shows "q = 0 \<or> (pow2 (- 149) \<le> \<bar>q\<bar> \<and> \<bar>q\<bar> < pow2 128)"
proof -
  define ex where "ex = (bits div 2 ^ 23) mod 256"
  define man where "man = bits mod 2 ^ 23"
  define m :: rat where "m = (if ex = 0 then of_nat man * pow2 (- 149)
      else of_nat (2 ^ 23 + man) * pow2 (int ex - 150))"
  have u: "float32_value bits = (if ex = 255 then (if man = 0 then Inf (2 ^ 31 \<le> bits) else NaN)
      else Fin (if 2 ^ 31 \<le> bits then - m else m))"
    unfolding float32_value_def Let_def ex_def man_def m_def ..
  have ex: "ex \<noteq> 255"
    using assms u by (cases "ex = 255") (simp_all split: if_splits)
  have "ex < 256"
    unfolding ex_def by simp
  with ex have ex2: "ex \<le> 254"
    by simp
  have man: "man < 2 ^ 23"
    unfolding man_def by simp
  have q: "q = m \<or> q = - m"
    using assms ex u by (cases "2 ^ 31 \<le> bits") simp_all
  have "m = 0 \<or> (pow2 (- 149) \<le> m \<and> m < pow2 128)"
  proof (cases "ex = 0")
    case True
    then have m: "m = of_nat man * pow2 (- 149)"
      by (simp add: m_def)
    show ?thesis
    proof (cases "man = 0")
      case True
      with m show ?thesis by simp
    next
      case False
      then have "(1::rat) \<le> of_nat man"
        by simp
      then have "1 * pow2 (- 149) \<le> of_nat man * pow2 (- 149)"
        by (intro mult_right_mono) simp_all
      then have a: "pow2 (- 149) \<le> m"
        by (simp only: m mult_1)
      have "(of_nat man :: rat) < of_nat (2 ^ 23)"
        using man by (simp only: of_nat_less_iff)
      then have "of_nat man * pow2 (- 149) < of_nat (2 ^ 23) * pow2 (- 149)"
        by (intro mult_strict_right_mono) simp_all
      also have "of_nat (2 ^ 23) * pow2 (- 149) = pow2 (- 126)"
        using pow2_add [of 23 "- 149"] by (simp add: pow2_nat)
      also have "pow2 (- 126) < pow2 128"
        by (intro pow2_strict_mono) simp
      finally have "m < pow2 128"
        by (simp only: m)
      with a show ?thesis by blast
    qed
  next
    case False
    then have m: "m = of_nat (2 ^ 23 + man) * pow2 (int ex - 150)"
      by (simp add: m_def)
    have e1: "- 149 \<le> int ex - 150" and e2: "int ex - 150 \<le> 104"
      using False ex2 by simp_all
    have "(of_nat (2 ^ 23) :: rat) \<le> of_nat (2 ^ 23 + man)"
      by (simp only: of_nat_le_iff le_add1)
    then have "of_nat (2 ^ 23) * pow2 (int ex - 150) \<le> m"
      unfolding m by (intro mult_right_mono) simp_all
    moreover have "pow2 (- 149) \<le> pow2 (int ex - 150)"
      using e1 by (rule pow2_mono)
    moreover have "1 * pow2 (int ex - 150) \<le> of_nat (2 ^ 23) * pow2 (int ex - 150)"
      by (intro mult_right_mono) simp_all
    ultimately have lo: "pow2 (- 149) \<le> m"
      by linarith
    have "(of_nat (2 ^ 23 + man) :: rat) < of_nat (2 ^ 24)"
      using man by (simp only: of_nat_less_iff) simp
    then have "m < of_nat (2 ^ 24) * pow2 (int ex - 150)"
      unfolding m by (intro mult_strict_right_mono) simp_all
    also have "of_nat (2 ^ 24) * pow2 (int ex - 150) \<le> of_nat (2 ^ 24) * pow2 104"
      using pow2_mono [OF e2] by (intro mult_left_mono) simp_all
    also have "of_nat (2 ^ 24) * pow2 104 = pow2 128"
      using pow2_add [of 24 104] by (simp add: pow2_nat)
    finally have "m < pow2 128" .
    with lo show ?thesis by blast
  qed
  then have "m = 0 \<or> (pow2 (- 149) \<le> \<bar>m\<bar> \<and> \<bar>m\<bar> < pow2 128)"
    using pow2_pos [of "- 149"] by (cases "0 \<le> m") auto
  moreover have "\<bar>q\<bar> = \<bar>m\<bar>" and "m = 0 \<longrightarrow> q = 0"
    using q by auto
  ultimately show ?thesis
    by auto
qed

lemma float32_elements_values:
  "x \<in> set (float32_elements buf) \<Longrightarrow> \<exists>bits. x = float32_value bits"
  by (induction buf rule: float32_elements.induct) auto

lemma vec_get_float32:
  assumes "vec_get (float32_elements buf) n = Fin q"
  shows "q = 0 \<or> (pow2 (- 149) \<le> \<bar>q\<bar> \<and> \<bar>q\<bar> < pow2 128)"
proof -
  have "n < length (float32_elements buf)"
    using assms by (auto simp: vec_get_def split: if_splits)
  then have "vec_get (float32_elements buf) n \<in> set (float32_elements buf)"
    by (simp add: vec_get_def)
  then obtain bits where "float32_value bits = Fin q"
    using float32_elements_values assms by metis
  then show ?thesis
    by (rule float32_value_range)
qed

lemma pow2_ge_pos: "pow2 a \<le> r \<Longrightarrow> 0 < r"
  by (rule less_le_trans [OF pow2_pos])

lemma sumsq_step:
  assumes x: "x = 0 \<or> (pow2 (- 149) \<le> \<bar>x\<bar> \<and> \<bar>x\<bar> < pow2 128)"
    and q: "q = 0 \<or> pow2 (- 298) \<le> q" and qB: "q \<le> pow2 B"
    and B: "256 \<le> B" "B + 2 \<le> 1023"
  shows "\<exists>r. fadd (Fin q) (fmul (Fin x) (Fin x)) = Fin r
    \<and> (r = 0 \<or> pow2 (- 298) \<le> r) \<and> r \<le> pow2 (B + 2) \<and> (q \<noteq> 0 \<or> x \<noteq> 0 \<longrightarrow> r \<noteq> 0)"
proof -
  have q0: "0 \<le> q"
    using q pow2_ge_pos [of "- 298" q] by auto
  have pos: "r \<noteq> 0" if "pow2 (- 298) \<le> r" for r
    using pow2_ge_pos [OF that] by simp
  have B1: "pow2 (B + 1) \<le> pow2 (B + 2)" and B0: "pow2 B < pow2 (B + 1)"
    by (intro pow2_mono pow2_strict_mono; simp)+
  show ?thesis
  proof (cases "x = 0")
    case True
    then have f: "fadd (Fin q) (fmul (Fin x) (Fin x)) = round_double q"
      by (simp add: round_double_0)
    show ?thesis
    proof (cases "q = 0")
      case True
      with f \<open>x = 0\<close> show ?thesis
        by (simp add: round_double_0)
    next
      case False
      with q have l: "pow2 (- 298) \<le> q" by simp
      have h: "q < pow2 (B + 1)"
        using qB B0 by linarith
      from round_double_range [OF l h] B obtain r where "round_double q = Fin r"
        "pow2 (- 298) \<le> r" "r \<le> pow2 (B + 1)"
        by auto
      with f B1 pos show ?thesis
        by (intro exI [of _ r]) auto
    qed
  next
    case False
    with x have x1: "pow2 (- 149) \<le> \<bar>x\<bar>" and x2: "\<bar>x\<bar> < pow2 128"
      by simp_all
    have xx: "x * x = \<bar>x\<bar> * \<bar>x\<bar>"
      by simp
    have "pow2 (- 149) * pow2 (- 149) \<le> \<bar>x\<bar> * \<bar>x\<bar>"
      using x1 by (intro square_mono) simp_all
    then have l: "pow2 (- 298) \<le> x * x"
      using pow2_add [of "- 149" "- 149"] by (simp only: xx) simp
    have "\<bar>x\<bar> * \<bar>x\<bar> < pow2 128 * pow2 128"
      using x2 by (intro mult_strict_mono) simp_all
    then have h: "x * x < pow2 256"
      using pow2_add [of 128 128] by (simp only: xx) simp
    from round_double_range [OF l h] obtain y where y: "round_double (x * x) = Fin y"
      "pow2 (- 298) \<le> y" "y \<le> pow2 256"
      by auto
    have "pow2 256 \<le> pow2 B"
      using B(1) by (rule pow2_mono)
    then have "q + y \<le> pow2 B + pow2 B"
      using qB y(3) by linarith
    also have "\<dots> = pow2 (B + 1)"
      by (simp add: pow2_Suc)
    also have "\<dots> < pow2 (B + 2)"
      by (intro pow2_strict_mono) simp
    finally have h2: "q + y < pow2 (B + 2)" .
    have l2: "pow2 (- 298) \<le> q + y"
      using q0 y(2) by linarith
    from round_double_range [OF l2 h2] B obtain r where "round_double (q + y) = Fin r"
      "pow2 (- 298) \<le> r" "r \<le> pow2 (B + 2)"
      by auto
    with y(1) pos show ?thesis
      by (intro exI [of _ r]) auto
  qed
qed

lemma cos_fold_self:
  assumes "\<forall>k\<in>set ks. \<exists>x. vec_get vd (off + k) = Fin x
        \<and> (x = 0 \<or> (pow2 (- 149) \<le> \<bar>x\<bar> \<and> \<bar>x\<bar> < pow2 128))"
    and "q = 0 \<or> pow2 (- 298) \<le> q" and "q \<le> pow2 B"
    and "256 \<le> B" and "B + 2 * int (length ks) \<le> 1023"
  shows "\<exists>r. fold (cos_step vd off off) ks (Fin q, Fin q, Fin q) = (Fin r, Fin r, Fin r)
    \<and> (r = 0 \<or> pow2 (- 298) \<le> r) \<and> r \<le> pow2 (B + 2 * int (length ks))
    \<and> (q \<noteq> 0 \<or> (\<exists>k\<in>set ks. vec_get vd (off + k) \<noteq> Fin 0) \<longrightarrow> r \<noteq> 0)"
  using assms
proof (induction ks arbitrary: q B)
  case Nil
  then show ?case by simp
next
  case (Cons k ks)
  from Cons.prems(1) obtain x where x: "vec_get vd (off + k) = Fin x"
    "x = 0 \<or> (pow2 (- 149) \<le> \<bar>x\<bar> \<and> \<bar>x\<bar> < pow2 128)"
    by auto
  have B2: "B + 2 \<le> 1023"
    using Cons.prems(5) by simp
  from sumsq_step [OF x(2) Cons.prems(2,3,4) B2] obtain r1 where
    r1: "fadd (Fin q) (fmul (Fin x) (Fin x)) = Fin r1"
    "r1 = 0 \<or> pow2 (- 298) \<le> r1" "r1 \<le> pow2 (B + 2)" "q \<noteq> 0 \<or> x \<noteq> 0 \<longrightarrow> r1 \<noteq> 0"
    by blast
  have st: "cos_step vd off off k (Fin q, Fin q, Fin q) = (Fin r1, Fin r1, Fin r1)"
    by (simp add: cos_step_def Let_def x(1) r1(1) del: fadd.simps fmul.simps)
  have a: "\<forall>k\<in>set ks. \<exists>x. vec_get vd (off + k) = Fin x
        \<and> (x = 0 \<or> (pow2 (- 149) \<le> \<bar>x\<bar> \<and> \<bar>x\<bar> < pow2 128))"
    using Cons.prems(1) by simp
  have b: "256 \<le> B + 2" and c: "B + 2 + 2 * int (length ks) \<le> 1023"
    using Cons.prems(4,5) by simp_all
  from Cons.IH [OF a r1(2,3) b c] obtain r where
    r: "fold (cos_step vd off off) ks (Fin r1, Fin r1, Fin r1) = (Fin r, Fin r, Fin r)"
    "r = 0 \<or> pow2 (- 298) \<le> r" "r \<le> pow2 (B + 2 + 2 * int (length ks))"
    "r1 \<noteq> 0 \<or> (\<exists>k\<in>set ks. vec_get vd (off + k) \<noteq> Fin 0) \<longrightarrow> r \<noteq> 0"
    by blast
  have e: "B + 2 + 2 * int (length ks) = B + 2 * int (length (k # ks))"
    by simp
  have "q \<noteq> 0 \<or> (\<exists>k'\<in>set (k # ks). vec_get vd (off + k') \<noteq> Fin 0) \<longrightarrow> r \<noteq> 0"
    using r(4) r1(4) x(1) by auto
  with r(1,2,3) show ?case
    unfolding e by (intro exI [of _ r]) (simp add: st)
qed

lemma cosine_self:
  assumes v: "vecData st = Some (float32_elements buf)"
    and f: "\<forall>k<SIM_D. isFinite (vec_get (float32_elements buf) (i * SIM_D + k))"
    and n: "\<exists>k<SIM_D. vec_get (float32_elements buf) (i * SIM_D + k) \<noteq> Fin 0"
  shows "\<exists>f. cosineSimByIndex st i i = Inr (Fin f) \<and> \<bar>f - 1\<bar> \<le> pow2 (- 50)"
proof -
  let ?vd = "float32_elements buf"
  have a: "\<forall>k\<in>set [0..<SIM_D]. \<exists>x. vec_get ?vd (i * SIM_D + k) = Fin x
        \<and> (x = 0 \<or> (pow2 (- 149) \<le> \<bar>x\<bar> \<and> \<bar>x\<bar> < pow2 128))"
  proof
    fix k assume "k \<in> set [0..<SIM_D]"
    then have "isFinite (vec_get ?vd (i * SIM_D + k))"
      using f by simp
    then obtain x where x: "vec_get ?vd (i * SIM_D + k) = Fin x"
      by (cases "vec_get ?vd (i * SIM_D + k)") simp_all
    from vec_get_float32 [OF x] x
    show "\<exists>x. vec_get ?vd (i * SIM_D + k) = Fin x
        \<and> (x = 0 \<or> (pow2 (- 149) \<le> \<bar>x\<bar> \<and> \<bar>x\<bar> < pow2 128))"
      by blast
  qed
  have z: "(0::rat) = 0 \<or> pow2 (- 298) \<le> 0" and b: "(0::rat) \<le> pow2 256"
    by simp_all
  have l: "256 + 2 * int (length [0..<SIM_D]) \<le> 1023"
    by (simp add: SIM_D_def)
  from cos_fold_self [OF a z b _ l] obtain r where
    r: "fold (cos_step ?vd (i * SIM_D) (i * SIM_D)) [0..<SIM_D] (Fin 0, Fin 0, Fin 0)
        = (Fin r, Fin r, Fin r)"
    "r = 0 \<or> pow2 (- 298) \<le> r" "r \<le> pow2 (256 + 2 * int (length [0..<SIM_D]))"
    "0 \<noteq> (0::rat) \<or> (\<exists>k\<in>set [0..<SIM_D]. vec_get ?vd (i * SIM_D + k) \<noteq> Fin 0) \<longrightarrow> r \<noteq> 0"
    by auto
  have r0: "r \<noteq> 0"
    using r(4) n by auto
  with r(2) have r1: "pow2 (- 298) \<le> r"
    by simp
  have "r \<le> pow2 356"
    using r(3) by (simp add: SIM_D_def)
  also have "\<dots> < pow2 400"
    by (intro pow2_strict_mono) simp
  finally have r2: "r < pow2 400" .
  have "cosineSimByIndex st i i = Inr (fdiv (Fin r) (fmul (fsqrt (Fin r)) (fsqrt (Fin r))))"
    using r0 by (simp add: cosineSimByIndex_def v Let_def r(1) del: fdiv.simps fmul.simps)
  with self_cosine_bound [OF r1 r2] show ?thesis
    by auto
qed

lemma example_vectors_finite:
  "k < 50 \<Longrightarrow> isFinite (vec_get example_vectors k)"
  using vec_get_example(1,3) vec_get_example_zero(1) [of k]
  by (cases "k = 0"; cases "k = 1") simp_all

lemma example_model_loaded:
  "vecData (snd (loadVocabAndVec_v1 example_env initial_state)) = vecData example_model"
  "wordToIndex (snd (loadVocabAndVec_v1 example_env initial_state)) = wordToIndex example_model"
proof -
  have m: "length example_vec_bytes mod 4 = 0"
    by (simp add: length_example_vec_bytes)
  show "vecData (snd (loadVocabAndVec_v1 example_env initial_state)) = vecData example_model"
    "wordToIndex (snd (loadVocabAndVec_v1 example_env initial_state)) = wordToIndex example_model"
    by (simp_all add: loadVocabAndVec_v1_fetched [OF example_env_fields(1,2) m]
        float32_elements_example example_model_def)
qed

lemma cos_step_nan: "cos_step vd offI offJ k (NaN, NaN, NaN) = (NaN, NaN, NaN)"
  by (simp add: cos_step_def Let_def)

lemma cos_fold_all_nan:
  "fold (cos_step vd offI offJ) ks (NaN, NaN, NaN) = (NaN, NaN, NaN)"
  by (induction ks) (simp_all add: cos_step_nan)

lemma cosine_nan_self:
  assumes "vecData st = Some (example_vectors @ NaN # replicate 49 (Fin 0))"
  shows "cosineSimByIndex st 3 3 = Inr NaN"
proof -
  let ?vd = "example_vectors @ NaN # replicate 49 (Fin 0)"
  have n: "vec_get ?vd 150 = NaN"
    by (simp add: vec_get_def nth_append length_example_vectors)
  have "cos_step ?vd (3 * SIM_D) (3 * SIM_D) 0 (Fin 0, Fin 0, Fin 0) = (NaN, NaN, NaN)"
    by (simp add: cos_step_def Let_def SIM_D_def n)
  then have "fold (cos_step ?vd (3 * SIM_D) (3 * SIM_D)) [0..<SIM_D] (Fin 0, Fin 0, Fin 0)
      = (NaN, NaN, NaN)"
    by (simp only: upt_SIM_D fold_simps cos_step_nan cos_fold_all_nan)
  then show ?thesis
    by (simp add: cosineSimByIndex_def assms Let_def)
qed

text \<open>
  Claim C4 as stated fails in its second half: the similarity of a nonzero vector to itself
  is computed in binary64 arithmetic and is not always exactly 1. For the vector
  \<open>(1, 1, 0, \<dots>, 0)\<close> of the first word of the example the squared norm is 2, the
  product of the two rounded square roots is the next number above 2, and the quotient is
  the number just below 1. And a vector with a component that is not a finite number is
  nonzero too: for the fourth vector of \<open>nan_env\<close>, whose first component is a
  \<open>NaN\<close>, the similarity to itself is \<open>NaN\<close>.
\<close>

theorem C4_self_similarity_counterexample:
  "vecData (snd (loadVocabAndVec_v1 example_env initial_state)) = vecData example_model
   \<and> vecData example_model = Some (float32_elements example_vec_bytes)
   \<and> vec_get (float32_elements example_vec_bytes) 0 = Fin 1
   \<and> cosineSimByIndex example_model 0 0 = Inr (Fin (4503599627370495 / 4503599627370496))
   \<and> Fin (4503599627370495 / 4503599627370496) \<noteq> Fin 1
   \<and> vecData (snd (loadVocabAndVec_v1 nan_env initial_state))
       = Some (float32_elements (example_vec_bytes @ F32_NAN @ concat (replicate 49 F32_ZERO)))
   \<and> vec_get (float32_elements (example_vec_bytes @ F32_NAN @ concat (replicate 49 F32_ZERO)))
        (3 * SIM_D) = NaN
   \<and> cosineSimByIndex (snd (loadVocabAndVec_v1 nan_env initial_state)) 3 3 = Inr NaN"
proof -
  have m: "length (example_vec_bytes @ F32_NAN @ concat (replicate 49 F32_ZERO)) mod 4 = 0"
    by (simp add: length_example_vec_bytes F32_NAN_def F32_ZERO_def length_concat
        sum_list_replicate)
  have len: "length (float32_elements
      (example_vec_bytes @ F32_NAN @ concat (replicate 49 F32_ZERO)))
      = length (example_vocab @ [KUMA]) * SIM_D"
    by (simp add: float32_elements_nan length_example_vectors example_vocab_def SIM_D_def)
  have v: "vecData (snd (loadVocabAndVec_v1 nan_env initial_state))
      = Some (example_vectors @ NaN # replicate 49 (Fin 0))"
    using len by (simp add: loadVocabAndVec_v1_fetched [OF nan_env_fields m] float32_elements_nan)
  have n: "vec_get (example_vectors @ NaN # replicate 49 (Fin 0)) (3 * SIM_D) = NaN"
    by (simp add: vec_get_def nth_append length_example_vectors SIM_D_def)
  show ?thesis
    using v n
    by (simp add: example_model_loaded cosine_neko_neko vecData_example_model
        float32_elements_example vec_get_example float32_elements_nan cosine_nan_self [OF v])
qed

text \<open>
  Claim C4, amended. Let the vector buffer be a typed array of binary32 numbers. If all
  50 components of the vector of \<open>i\<close> or all 50 of the vector of \<open>j\<close> are zero, the
  similarity of \<open>i\<close> and \<open>j\<close> is exactly 0, and the call returns. If the components of
  the vector of \<open>i\<close> are finite and not all zero, the similarity of \<open>i\<close> to itself is a
  number that differs from 1 by no more than \<open>1 / 2 ^ 50\<close>, and the call returns.
\<close>

theorem C4_zero_vector_and_self_similarity:
  assumes "vecData st = Some (float32_elements buf)"
  shows "((\<forall>k<SIM_D. vec_get (float32_elements buf) (i * SIM_D + k) = Fin 0)
        \<or> (\<forall>k<SIM_D. vec_get (float32_elements buf) (j * SIM_D + k) = Fin 0)
      \<longrightarrow> cosineSimByIndex st i j = Inr (Fin 0))
    \<and> ((\<forall>k<SIM_D. isFinite (vec_get (float32_elements buf) (i * SIM_D + k)))
        \<and> (\<exists>k<SIM_D. vec_get (float32_elements buf) (i * SIM_D + k) \<noteq> Fin 0)
      \<longrightarrow> (\<exists>f. cosineSimByIndex st i i = Inr (Fin f) \<and> \<bar>f - 1\<bar> \<le> 1 / 2 ^ 50))"
proof (intro conjI impI)
  assume "(\<forall>k<SIM_D. vec_get (float32_elements buf) (i * SIM_D + k) = Fin 0)
        \<or> (\<forall>k<SIM_D. vec_get (float32_elements buf) (j * SIM_D + k) = Fin 0)"
  with assms show "cosineSimByIndex st i j = Inr (Fin 0)"
    by (rule cosine_zero)
next
  assume a: "(\<forall>k<SIM_D. isFinite (vec_get (float32_elements buf) (i * SIM_D + k)))
        \<and> (\<exists>k<SIM_D. vec_get (float32_elements buf) (i * SIM_D + k) \<noteq> Fin 0)"
  have "pow2 (- 50) = 1 / 2 ^ 50"
    by (simp add: pow2_def)
  with cosine_self [OF assms a [THEN conjunct1] a [THEN conjunct2]]
  show "\<exists>f. cosineSimByIndex st i i = Inr (Fin f) \<and> \<bar>f - 1\<bar> \<le> 1 / 2 ^ 50"
    by simp
qed

theorem C4_zero_vector_and_self_similarity_witness:
  "cosineSimByIndex example_model 1 2 = Inr (Fin 0)
   \<and> cosineSimByIndex example_model 2 0 = Inr (Fin 0)
   \<and> (\<exists>f. cosineSimByIndex example_model 0 0 = Inr (Fin f) \<and> \<bar>f - 1\<bar> \<le> 1 / 2 ^ 50)"
proof -
  have v: "vecData example_model = Some (float32_elements example_vec_bytes)"
    by (simp add: vecData_example_model float32_elements_example)
  have z: "\<forall>k<SIM_D. vec_get (float32_elements example_vec_bytes) (2 * SIM_D + k) = Fin 0"
    by (simp add: float32_elements_example vec_get_example_zero SIM_D_def)
  have f: "\<forall>k<SIM_D. isFinite (vec_get (float32_elements example_vec_bytes) (0 * SIM_D + k))"
    by (simp add: float32_elements_example example_vectors_finite SIM_D_def)
  have n: "\<exists>k<SIM_D. vec_get (float32_elements example_vec_bytes) (0 * SIM_D + k) \<noteq> Fin 0"
    by (rule exI [of _ 0]) (simp add: float32_elements_example vec_get_example SIM_D_def)
  have a: "cosineSimByIndex example_model 1 2 = Inr (Fin 0)"
    using C4_zero_vector_and_self_similarity [OF v, of 1 2, THEN conjunct1] z by blast
  have b: "cosineSimByIndex example_model 2 0 = Inr (Fin 0)"
    using C4_zero_vector_and_self_similarity [OF v, of 2 0, THEN conjunct1] z by blast
  have c: "\<exists>f. cosineSimByIndex example_model 0 0 = Inr (Fin f) \<and> \<bar>f - 1\<bar> \<le> 1 / 2 ^ 50"
    using C4_zero_vector_and_self_similarity [OF v, of 0 0, THEN conjunct2] f n by blast
  from a b c show ?thesis
    by blast
qed

end
